theory Spec2Isabelle
  imports Main "HOL-Library.Char_ord" "HOL-Library.List_Lexorder"
begin

section \<open>Errors and basic types\<close>

text \<open>
  The Python exceptions the modelled functions can raise.
\<close>

datatype error = IndexError | KeyError | ValueError | AttributeError

type_synonym symbol = string

type_synonym alignment = "symbol list list"

section \<open>The proto-gap merge: \<open>ungap\<close>\<close>

text \<open>
  \<^verbatim>\<open>pidxs\<close>: the indices of \<^verbatim>\<open>languages\<close> that hold the taxon \<^verbatim>\<open>proto\<close>.
\<close>

definition pidxs_of :: "string list \<Rightarrow> string \<Rightarrow> nat list" where
  "pidxs_of languages proto = [i \<leftarrow> [0..<length languages]. languages ! i = proto]"

text \<open>
  \<^verbatim>\<open>col_rest = [site for j, site in enumerate(col) if j not in pidxs]\<close>
\<close>

definition col_rest :: "nat list \<Rightarrow> symbol list \<Rightarrow> symbol list" where
  "col_rest pidxs col = map snd [p \<leftarrow> enumerate 0 col. fst p \<notin> set pidxs]"

text \<open>
  \<^verbatim>\<open>"-" in col_rest and len(set(col_rest)) == 1\<close>
\<close>

definition mergeable :: "symbol list \<Rightarrow> bool" where
  "mergeable cr \<longleftrightarrow> ''-'' \<in> set cr \<and> length (remdups cr) = 1"

text \<open>
  The first loop of \<^verbatim>\<open>ungap\<close>. \<^verbatim>\<open>alignment[0]\<close> raises IndexError on an empty
  alignment, and \<^verbatim>\<open>row[i]\<close> raises it as soon as a row is shorter than the first one.
\<close>

definition column :: "alignment \<Rightarrow> nat \<Rightarrow> symbol list" where
  "column alignment i = map (\<lambda>row. row ! i) alignment"

definition merges_of :: "alignment \<Rightarrow> nat list \<Rightarrow> error + nat list" where
  "merges_of alignment pidxs =
     (case alignment of
        [] \<Rightarrow> Inl IndexError
      | row0 # _ \<Rightarrow>
          if \<exists>row \<in> set alignment. length row < length row0 then Inl IndexError
          else Inr [i \<leftarrow> [0..<length row0]. mergeable (col_rest pidxs (column alignment i))])"

text \<open>
  One iteration of the inner loop over \<^verbatim>\<open>enumerate(row)\<close>; the loop state is
  \<^verbatim>\<open>(new_alm, mergeit, started)\<close>. The branch that writes \<^verbatim>\<open>new_alm[-1]\<close> is
  only reached with \<^verbatim>\<open>started\<close> false, that is after a cell has been appended
  (lemma \<open>merge_loop_nonempty\<close> below), so the write never fails.
\<close>

fun merge_step :: "nat list \<Rightarrow> nat \<times> symbol \<Rightarrow> symbol list \<times> bool \<times> bool
    \<Rightarrow> symbol list \<times> bool \<times> bool" where
  "merge_step merges (j, cell) (new_alm, mergeit, started) =
     (if j \<in> set merges \<or> mergeit then
        (if \<not> started then
           (if cell = ''-'' then (new_alm, False, started)
            else if last new_alm = [] then (butlast new_alm @ [last new_alm @ cell], False, started)
            else (butlast new_alm @ [last new_alm @ ''.'' @ cell], False, started))
         else (new_alm @ [if cell = ''-'' then [] else cell], True, started))
      else (new_alm @ [cell], mergeit, False))"

definition merge_loop :: "nat list \<Rightarrow> nat \<Rightarrow> symbol list \<Rightarrow> symbol list \<times> bool \<times> bool
    \<Rightarrow> symbol list \<times> bool \<times> bool" where
  "merge_loop merges k row st = fold (merge_step merges) (enumerate k row) st"

text \<open>
  The closing loop: \<^verbatim>\<open>if not cell: new_alm[k] = "-"\<close>.
\<close>

definition fill_gaps :: "symbol list \<Rightarrow> symbol list" where
  "fill_gaps new_alm = map (\<lambda>cell. if cell = [] then ''-'' else cell) new_alm"

definition ungap_row :: "nat list \<Rightarrow> symbol list \<Rightarrow> symbol list" where
  "ungap_row merges row = fill_gaps (fst (merge_loop merges 0 row ([], False, True)))"

definition ungap :: "alignment \<Rightarrow> string list \<Rightarrow> string \<Rightarrow> error + alignment" where
  "ungap alignment languages proto =
     (case merges_of alignment (pidxs_of languages proto) of
        Inl e \<Rightarrow> Inl e
      | Inr merges \<Rightarrow>
          if merges \<noteq> [] then Inr (map (ungap_row merges) alignment) else Inr alignment)"

text \<open>
  The part of the loop state that does not depend on the cells' contents, and the
  invariant that makes \<^verbatim>\<open>new_alm[-1]\<close> defined.
\<close>
fun shape :: "symbol list \<times> bool \<times> bool \<Rightarrow> nat \<times> bool \<times> bool" where
  "shape (new_alm, mergeit, started) = (length new_alm, mergeit, started)"

fun loop_ok :: "symbol list \<times> bool \<times> bool \<Rightarrow> bool" where
  "loop_ok (new_alm, mergeit, started) \<longleftrightarrow> (\<not> started \<longrightarrow> new_alm \<noteq> [])"

definition degap :: "symbol \<Rightarrow> symbol" where
  "degap cell = (if cell = ''-'' then [] else cell)"

definition keep :: "nat list \<Rightarrow> nat \<Rightarrow> symbol list \<Rightarrow> symbol list" where
  "keep merges k row = map snd [p \<leftarrow> enumerate k row. fst p \<notin> set merges]"

section \<open>Python dictionaries and helpers\<close>

text \<open>
  A Python \<^verbatim>\<open>dict\<close> keeps its keys in insertion order, and the code iterates over
  dictionaries and sorts their items stably, so a dictionary is an association list with
  distinct keys in insertion order. \<^verbatim>\<open>d[k] = v\<close> keeps the position of a key that is
  already there and appends a new one.
\<close>

type_synonym ('k, 'v) dict = "('k \<times> 'v) list"

fun dict_set :: "'k \<Rightarrow> 'v \<Rightarrow> ('k, 'v) dict \<Rightarrow> ('k, 'v) dict" where
  "dict_set k v [] = [(k, v)]"
| "dict_set k v ((k', v') # d) = (if k' = k then (k, v) # d else (k', v') # dict_set k v d)"

text \<open>
  Reading \<^verbatim>\<open>d[k]\<close> from a \<^verbatim>\<open>defaultdict\<close> (or \<^verbatim>\<open>d.get(k, v0)\<close>): the default stands for a
  missing key. (A \<^verbatim>\<open>defaultdict\<close> also stores the default on such a read; every read of
  the model goes through this function, so the stored default is never told apart from the
  missing key.)
\<close>

definition dict_default :: "'v \<Rightarrow> ('k, 'v) dict \<Rightarrow> 'k \<Rightarrow> 'v" where
  "dict_default v0 d k = (case map_of d k of None \<Rightarrow> v0 | Some v \<Rightarrow> v)"

text \<open>
  \<^verbatim>\<open>d[k] += [v]\<close> and \<^verbatim>\<open>d[k] += n\<close> on a \<^verbatim>\<open>defaultdict\<close>.
\<close>

definition dict_append :: "'k \<Rightarrow> 'v \<Rightarrow> ('k, 'v list) dict \<Rightarrow> ('k, 'v list) dict" where
  "dict_append k v d = dict_set k (dict_default [] d k @ [v]) d"

definition dict_add :: "'k \<Rightarrow> nat \<Rightarrow> ('k, nat) dict \<Rightarrow> ('k, nat) dict" where
  "dict_add k n d = dict_set k (dict_default 0 d k + n) d"

text \<open>
  \<^verbatim>\<open>sorted(xs, key=key, reverse=True)\<close>: descending by key, and stable (elements with equal
  keys keep their order, also with \<^verbatim>\<open>reverse=True\<close>).
\<close>

definition sorted_desc :: "('a \<Rightarrow> int) \<Rightarrow> 'a list \<Rightarrow> 'a list" where
  "sorted_desc key xs = sort_key (\<lambda>x. - key x) xs"

text \<open>
  Running a list of fallible computations up to the first exception.
\<close>

fun collect :: "(error + 'a) list \<Rightarrow> error + 'a list" where
  "collect [] = Inr []"
| "collect (Inl e # rs) = Inl e"
| "collect (Inr x # rs) = (case collect rs of Inl e \<Rightarrow> Inl e | Inr xs \<Rightarrow> Inr (x # xs))"

definition ebind :: "error + 'a \<Rightarrow> ('a \<Rightarrow> error + 'b) \<Rightarrow> error + 'b" where
  "ebind r f = (case r of Inl e \<Rightarrow> Inl e | Inr x \<Rightarrow> f x)"

text \<open>
  \<^verbatim>\<open>itertools.combinations(xs, 2)\<close>
\<close>

fun combinations2 :: "'a list \<Rightarrow> ('a \<times> 'a) list" where
  "combinations2 [] = []"
| "combinations2 (x # xs) = map (Pair x) xs @ combinations2 xs"

section \<open>The classifier \<open>CorPaRClassifier\<close>\<close>

text \<open>
  A pattern is a tuple of alphabet indices; index 0 is the missing value
  (\<^verbatim>\<open>self.missing = 0\<close>, whatever the constructor is given).
\<close>

type_synonym pattern = "nat list"

text \<open>
  The graph \<^verbatim>\<open>self.G\<close>: its nodes with their \<^verbatim>\<open>freq\<close> attribute and its edges with
  their \<^verbatim>\<open>weight\<close>, both in insertion order.
\<close>

record graph =
  g_nodes :: "(pattern, nat) dict"
  g_edges :: "(pattern \<times> pattern, nat) dict"

definition empty_graph :: graph where
  "empty_graph = \<lparr>g_nodes = [], g_edges = []\<rparr>"

record classifier =
  G :: graph
  threshold :: nat
  fitted :: bool
  patterns :: "(pattern, (nat, nat) dict) dict"
  lookup :: "(pattern, (pattern, nat) dict) dict"
  predictions :: "(pattern, nat) dict"
  ptnlkp :: "(nat \<times> nat, pattern list) dict"

text \<open>
  \<^verbatim>\<open>__init__\<close>: an empty graph; the tables only exist after \<^verbatim>\<open>fit\<close>
  (\<open>fitted\<close> records that).
\<close>

definition CorPaR_init :: "nat \<Rightarrow> classifier" where
  "CorPaR_init thr = \<lparr>G = empty_graph, threshold = thr, fitted = False, patterns = [],
     lookup = [], predictions = [], ptnlkp = []\<rparr>"

fun compatible_step :: "nat \<times> nat \<Rightarrow> nat \<times> nat \<Rightarrow> nat \<times> nat" where
  "compatible_step (a, b) (match, mismatch) =
     (if a = 0 \<or> b = 0 then (match, mismatch)
      else if a = b then (match + 1, mismatch)
      else (match, mismatch + 1))"

definition compatible :: "pattern \<Rightarrow> pattern \<Rightarrow> nat \<times> nat" where
  "compatible ptA ptB = fold compatible_step (zip ptA ptB) (0, 0)"

text \<open>
  \<^verbatim>\<open>consensus\<close>: per position of the first node, the first non-missing value among the
  nodes. \<^verbatim>\<open>nodes[0]\<close> fails on an empty list and \<^verbatim>\<open>node[i]\<close> on a node shorter than the
  first one (when no earlier node has a value there).
\<close>

fun first_value :: "nat \<Rightarrow> pattern list \<Rightarrow> error + nat" where
  "first_value i [] = Inr 0"
| "first_value i (node # nodes) =
     (if i < length node then (if node ! i \<noteq> 0 then Inr (node ! i) else first_value i nodes)
      else Inl IndexError)"

definition consensus :: "pattern list \<Rightarrow> error + pattern" where
  "consensus nodes =
     (case nodes of
        [] \<Rightarrow> Inl IndexError
      | node0 # _ \<Rightarrow> collect (map (\<lambda>i. first_value i nodes) [0..<length node0]))"

text \<open>
  The first loop of \<^verbatim>\<open>fit\<close>: \<^verbatim>\<open>P[tuple(row+[y[i]])] += [i]\<close>.
\<close>

fun group_rows :: "nat \<Rightarrow> pattern list \<Rightarrow> nat list \<Rightarrow> (pattern, nat list) dict
    \<Rightarrow> error + (pattern, nat list) dict" where
  "group_rows i [] y P = Inr P"
| "group_rows i (row # X) y P =
     (if i < length y then group_rows (Suc i) X y (dict_append (row @ [y ! i]) i P)
      else Inl IndexError)"

definition add_node :: "pattern \<Rightarrow> nat \<Rightarrow> graph \<Rightarrow> graph" where
  "add_node p freq g = (if p \<in> fst ` set (g_nodes g) then g else g\<lparr>g_nodes := g_nodes g @ [(p, freq)]\<rparr>)"

definition add_edge :: "pattern \<Rightarrow> pattern \<Rightarrow> nat \<Rightarrow> graph \<Rightarrow> graph" where
  "add_edge pA pB weight g =
     (if (pB, pA) \<in> fst ` set (g_edges g) then g\<lparr>g_edges := dict_set (pB, pA) weight (g_edges g)\<rparr>
      else g\<lparr>g_edges := dict_set (pA, pB) weight (g_edges g)\<rparr>)"

fun link :: "nat \<Rightarrow> (pattern \<times> nat list) \<times> (pattern \<times> nat list) \<Rightarrow> graph \<Rightarrow> graph" where
  "link thr ((pA, vA), (pB, vB)) g =
     (case compatible pA pB of (match, mismatch) \<Rightarrow>
        if mismatch = 0 \<and> thr \<le> match
        then add_edge pA pB match (add_node pB (length vB) (add_node pA (length vA) g))
        else g)"

definition make_graph :: "nat \<Rightarrow> (pattern, nat list) dict \<Rightarrow> graph \<Rightarrow> graph" where
  "make_graph thr P g = fold (link thr) (combinations2 P) g"

text \<open>
  Modelled from the spec: \<^verbatim>\<open>find_cliques\<close> is the graph library's maximal-clique
  enumeration ("Enumerate all maximal cliques of the resulting undirected graph"), not part
  of the sources; a graph without nodes has no clique ("an empty graph/table (not an
  error)"). The order in which the cliques of a non-empty graph come, and the order of the
  nodes within a clique, are the library's: the enumeration is the parameter \<open>enum\<close>.
\<close>

definition find_cliques :: "(graph \<Rightarrow> pattern list list) \<Rightarrow> graph \<Rightarrow> pattern list list" where
  "find_cliques enum g = (if g_nodes g = [] then [] else enum g)"

text \<open>
  Modelled from the spec: a complete enumeration of the maximal cliques ("Enumerate all
  maximal cliques"), in one fixed order (the sub-lists of the node list, nodes in insertion
  order); it stands for the library's enumeration where the model is run on a concrete
  graph.
\<close>

definition adjacent :: "graph \<Rightarrow> pattern \<Rightarrow> pattern \<Rightarrow> bool" where
  "adjacent g a b \<longleftrightarrow> (a, b) \<in> fst ` set (g_edges g) \<or> (b, a) \<in> fst ` set (g_edges g)"

definition is_clique :: "graph \<Rightarrow> pattern list \<Rightarrow> bool" where
  "is_clique g ns \<longleftrightarrow> list_all (\<lambda>a. list_all (\<lambda>b. a = b \<or> adjacent g a b) ns) ns"

definition maximal_cliques :: "graph \<Rightarrow> pattern list list" where
  "maximal_cliques g =
     [ns \<leftarrow> subseqs (map fst (g_nodes g)). ns \<noteq> [] \<and> is_clique g ns
        \<and> list_all (\<lambda>v. v \<in> set ns \<or> \<not> is_clique g (v # ns)) (map fst (g_nodes g))]"

text \<open>
  The loop over the cliques. \<^verbatim>\<open>cons[-1]\<close> fails on an empty consensus.
\<close>

definition record_clique :: "pattern list \<Rightarrow> (pattern, (nat, nat) dict) dict \<times> (pattern, (pattern, nat) dict) dict
    \<Rightarrow> error + (pattern, (nat, nat) dict) dict \<times> (pattern, (pattern, nat) dict) dict" where
  "record_clique nodes tabs =
     (case consensus nodes of
        Inl e \<Rightarrow> Inl e
      | Inr cons \<Rightarrow>
          if cons = [] then Inl IndexError
          else Inr (dict_set (butlast cons) (dict_set (last cons) (length nodes) (dict_default [] (fst tabs) (butlast cons))) (fst tabs),
                    fold (\<lambda>node lk. dict_set (butlast node) (dict_add (butlast cons) (length nodes) (dict_default [] lk (butlast node))) lk)
                      nodes (snd tabs)))"

fun record_cliques :: "pattern list list \<Rightarrow> (pattern, (nat, nat) dict) dict \<times> (pattern, (pattern, nat) dict) dict
    \<Rightarrow> error + (pattern, (nat, nat) dict) dict \<times> (pattern, (pattern, nat) dict) dict" where
  "record_cliques [] tabs = Inr tabs"
| "record_cliques (nodes # cliques) tabs =
     (case record_clique nodes tabs of Inl e \<Rightarrow> Inl e | Inr tabs' \<Rightarrow> record_cliques cliques tabs')"

text \<open>
  \<^verbatim>\<open>[x for x, y in sorted(d.items(), key=lambda p: p[1], reverse=True)][0]\<close>; every inner
  dictionary of \<^verbatim>\<open>patterns\<close> and \<^verbatim>\<open>lookup\<close> has an item when it is read.
\<close>

definition best_key :: "('k, nat) dict \<Rightarrow> error + 'k" where
  "best_key d = (case map fst (sorted_desc (\<lambda>p. int (snd p)) d) of [] \<Rightarrow> Inl IndexError | x # _ \<Rightarrow> Inr x)"

text \<open>
  \<^verbatim>\<open>for ptn in self.patterns: self.predictions[ptn] = ...\<close>
\<close>

fun direct_rules :: "(pattern, (nat, nat) dict) dict \<Rightarrow> (pattern, nat) dict \<Rightarrow> error + (pattern, nat) dict" where
  "direct_rules [] preds = Inr preds"
| "direct_rules ((ptn, targets) # rest) preds =
     (case best_key targets of Inl e \<Rightarrow> Inl e | Inr t \<Rightarrow> direct_rules rest (dict_set ptn t preds))"

text \<open>
  \<^verbatim>\<open>for ptn in self.lookup: ... self.predictions[ptn] = self.predictions[ptnB]\<close>
\<close>

fun resolve_observed :: "(pattern, (pattern, nat) dict) dict \<Rightarrow> (pattern, nat) dict \<Rightarrow> error + (pattern, nat) dict" where
  "resolve_observed [] preds = Inr preds"
| "resolve_observed ((ptn, refs) # rest) preds =
     (case best_key refs of
        Inl e \<Rightarrow> Inl e
      | Inr ptnB \<Rightarrow>
          (case map_of preds ptnB of
             None \<Rightarrow> Inl KeyError
           | Some t \<Rightarrow> resolve_observed rest (dict_set ptn t preds)))"

text \<open>
  The index \<^verbatim>\<open>ptnlkp\<close>: \<^verbatim>\<open>self.ptnlkp[i, ptn[i]] += [ptn]\<close> for the non-missing positions
  of every key of \<^verbatim>\<open>patterns\<close>.
\<close>

definition index_pattern :: "pattern \<Rightarrow> (nat \<times> nat, pattern list) dict \<Rightarrow> (nat \<times> nat, pattern list) dict" where
  "index_pattern ptn idx =
     fold (\<lambda>i idx. if ptn ! i \<noteq> 0 then dict_append (i, ptn ! i) ptn idx else idx) [0..<length ptn] idx"

definition make_index :: "pattern list \<Rightarrow> (nat \<times> nat, pattern list) dict" where
  "make_index ptns = fold index_pattern ptns []"

definition fit :: "(graph \<Rightarrow> pattern list list) \<Rightarrow> classifier \<Rightarrow> pattern list \<Rightarrow> nat list \<Rightarrow> error + classifier" where
  "fit enum clf X y =
     ebind (group_rows 0 X y []) (\<lambda>P.
       let g = make_graph (threshold clf) P (G clf) in
       ebind (record_cliques (find_cliques enum g) ([], [])) (\<lambda>(pats, lk).
         ebind (direct_rules pats []) (\<lambda>preds0.
           ebind (resolve_observed lk preds0) (\<lambda>preds.
             Inr (clf\<lparr>G := g, fitted := True, patterns := pats, lookup := lk,
                    predictions := preds, ptnlkp := make_index (map fst pats)\<rparr>)))))"


text \<open>
  \<^verbatim>\<open>predict\<close>. One candidate pattern of the index is visited: it is skipped when seen
  before, else marked and scored. Scores are integers (\<^verbatim>\<open>match-mismatch\<close> may be
  negative).
\<close>

fun visit :: "pattern \<Rightarrow> pattern \<Rightarrow> (pattern \<times> int) list \<times> pattern list
    \<Rightarrow> (pattern \<times> int) list \<times> pattern list" where
  "visit ptn ptnB (candidates, visited) =
     (if ptnB \<in> set visited then (candidates, visited)
      else (case compatible ptn ptnB of (match, mismatch) \<Rightarrow>
        if match \<noteq> 0 \<and> mismatch = 0
        then (candidates @ [(ptnB, int match + int (length ptn))], ptnB # visited)
        else if int match - int mismatch \<noteq> 0
        then (candidates @ [(ptnB, int match - int mismatch)], ptnB # visited)
        else (candidates, ptnB # visited)))"

definition gather :: "(nat \<times> nat, pattern list) dict \<Rightarrow> pattern \<Rightarrow> (pattern \<times> int) list" where
  "gather idx ptn =
     fst (fold (\<lambda>i st. if ptn ! i \<noteq> 0 then fold (visit ptn) (dict_default [] idx (i, ptn ! i)) st else st)
            [0..<length ptn - 1] ([], []))"

text \<open>
  One row of the matrix: the exact lookup, and on \<^verbatim>\<open>KeyError\<close> the search. Reading the
  tables of a classifier that was never fitted raises \<^verbatim>\<open>AttributeError\<close>; the read
  \<^verbatim>\<open>self.predictions[ptn]\<close> of the chosen candidate is outside the \<^verbatim>\<open>try\<close>.
\<close>

definition predict_row :: "classifier \<Rightarrow> pattern \<Rightarrow> error + nat \<times> classifier" where
  "predict_row clf ptn =
     (if \<not> fitted clf then Inl AttributeError
      else (case map_of (predictions clf) ptn of
        Some t \<Rightarrow> Inr (t, clf)
      | None \<Rightarrow>
          (case map fst (sorted_desc snd (gather (ptnlkp clf) ptn)) of
             [] \<Rightarrow> Inr (0, clf)
           | ptnB # _ \<Rightarrow>
               (case map_of (predictions clf) ptnB of
                  None \<Rightarrow> Inl KeyError
                | Some t \<Rightarrow> Inr (t, clf\<lparr>predictions := dict_set ptn t (predictions clf)\<rparr>)))))"

fun predict :: "classifier \<Rightarrow> pattern list \<Rightarrow> error + nat list \<times> classifier" where
  "predict clf [] = Inr ([], clf)"
| "predict clf (row # matrix) =
     (case predict_row clf row of
        Inl e \<Rightarrow> Inl e
      | Inr (t, clf') \<Rightarrow>
          (case predict clf' matrix of Inl e \<Rightarrow> Inl e | Inr (out, clf'') \<Rightarrow> Inr (t # out, clf'')))"

section \<open>Alignment of one cognate set: \<open>simple_align\<close>\<close>

text \<open>
  The defaults of \<^verbatim>\<open>simple_align\<close> and of \<^verbatim>\<open>Baseline\<close>: the gap \<^verbatim>\<open>"-"\<close> and the missing
  value, the letter O with stroke (U+00D8), here as its two UTF-8 bytes. Comparing the byte
  lists lexicographically orders strings as Python orders them by code point.
\<close>

definition gap_symbol :: symbol where
  "gap_symbol = ''-''"

definition missing_symbol :: symbol where
  "missing_symbol = [CHR 0xC3, CHR 0x98]"

fun index_of :: "'a list \<Rightarrow> 'a \<Rightarrow> error + nat" where
  "index_of [] x = Inl ValueError"
| "index_of (y # ys) x = (if y = x then Inr 0 else (case index_of ys x of Inl e \<Rightarrow> Inl e | Inr n \<Rightarrow> Inr (Suc n)))"

text \<open>
  The inner loop \<^verbatim>\<open>matrix[i][lidx] = alms[j][i]\<close> over \<^verbatim>\<open>enumerate(languages)\<close>, for
  column \<open>i\<close>.
\<close>

fun fill_cells :: "alignment \<Rightarrow> string list \<Rightarrow> nat \<Rightarrow> (nat \<times> string) list \<Rightarrow> symbol list
    \<Rightarrow> error + symbol list" where
  "fill_cells alms all_languages i [] row = Inr row"
| "fill_cells alms all_languages i ((j, lng) # rest) row =
     (case index_of all_languages lng of
        Inl e \<Rightarrow> Inl e
      | Inr lidx \<Rightarrow>
          if j < length alms \<and> i < length (alms ! j)
          then fill_cells alms all_languages i rest (row[lidx := alms ! j ! i])
          else Inl IndexError)"

text \<open>
  \<^verbatim>\<open>simple_align\<close>. The aligner (the library's progressive alignment, or its length
  normalisation with \<^verbatim>\<open>align=False\<close>) is the parameter \<open>aln\<close>; it gets the sequences
  without their gaps.
\<close>

definition simple_align :: "(alignment \<Rightarrow> alignment) \<Rightarrow> alignment \<Rightarrow> string list \<Rightarrow> string list
    \<Rightarrow> bool \<Rightarrow> error + alignment" where
  "simple_align aln seqs languages all_languages training =
     ebind (if training
            then (if languages = [] then Inl IndexError
                  else ungap (aln (map (filter (\<lambda>s. s \<noteq> gap_symbol)) seqs)) languages (last languages))
            else Inr (aln (map (filter (\<lambda>s. s \<noteq> gap_symbol)) seqs)))
       (\<lambda>alms. case alms of
            [] \<Rightarrow> Inl IndexError
          | alm0 # _ \<Rightarrow>
              collect (map (\<lambda>i. fill_cells alms all_languages i (enumerate 0 languages)
                                   (replicate (length all_languages) missing_symbol))
                         [0..<length alm0]))"

text \<open>
  Modelled from the spec: the length-normalising aligner of the library ("a simpler
  length-normalization that right-pads with gaps without reordering content"), used to run
  the model on concrete sequences.
\<close>

definition normalize_alignment :: "alignment \<Rightarrow> alignment" where
  "normalize_alignment seqs =
     map (\<lambda>seq. seq @ replicate (Max (set (map length seqs)) - length seq) gap_symbol) seqs"

section \<open>The orchestrator \<open>Baseline\<close>\<close>

type_synonym training_instance = "string \<times> string list \<times> alignment"

record baseline =
  languages :: "string list"
  data :: "(string, (string, symbol list) dict) dict"
  gap :: symbol
  missing :: symbol
  classifiers :: "(string, classifier) dict"
  alignments :: "(string, training_instance list) dict"
  to_predict :: "(string, string list) dict"
  lang_patterns :: "(string, (symbol list, (symbol, (string \<times> nat) list) dict) dict) dict"
  matrices :: "(string, pattern list) dict"
  solutions :: "(string, nat list) dict"
  sound2idx :: "(symbol, nat) dict"
  idx2sound :: "(nat, symbol) dict"

text \<open>
  \<^verbatim>\<open>" ".join(xs)\<close>
\<close>

fun join_space :: "string list \<Rightarrow> string" where
  "join_space [] = []"
| "join_space [x] = x"
| "join_space (x # y # xs) = x @ '' '' @ join_space (y # xs)"

text \<open>
  The first inner loop of \<^verbatim>\<open>__init__\<close> for one cognate set: the known forms, their
  languages, and the languages to predict. \<^verbatim>\<open>data[language]\<close> raises \<^verbatim>\<open>KeyError\<close> when the
  row has no entry for a language.
\<close>

fun known_forms :: "(string, symbol list) dict \<Rightarrow> string list
    \<Rightarrow> error + alignment \<times> string list \<times> string list" where
  "known_forms row [] = Inr ([], [], [])"
| "known_forms row (language # rest) =
     (case map_of row language of
        None \<Rightarrow> Inl KeyError
      | Some form \<Rightarrow>
          (case known_forms row rest of
             Inl e \<Rightarrow> Inl e
           | Inr (alms, langs, unknown) \<Rightarrow>
               if form \<noteq> [] \<and> join_space form \<noteq> ''?'' then Inr (form # alms, language # langs, unknown)
               else if form \<noteq> [] \<and> join_space form = ''?'' then Inr (alms, langs, language # unknown)
               else Inr (alms, langs, unknown)))"

text \<open>
  The second inner loop: one training instance per known language, that language and its
  form moved to the end.
\<close>

definition instances_of :: "string \<Rightarrow> alignment \<Rightarrow> string list \<Rightarrow> (string, training_instance list) dict
    \<Rightarrow> (string, training_instance list) dict" where
  "instances_of cogid alms langs als =
     fold (\<lambda>(i, language) als.
             dict_append language
               (cogid, [lang \<leftarrow> langs. lang \<noteq> language] @ [language],
                map snd [p \<leftarrow> enumerate 0 alms. fst p \<noteq> i] @ [alms ! i]) als)
          (enumerate 0 langs) als"

fun init_loop :: "string list \<Rightarrow> (string, (string, symbol list) dict) dict
    \<Rightarrow> (string, training_instance list) dict \<times> (string, string list) dict
    \<Rightarrow> error + (string, training_instance list) dict \<times> (string, string list) dict" where
  "init_loop all_languages [] st = Inr st"
| "init_loop all_languages ((cogid, row) # rest) (als, tp) =
     (case known_forms row all_languages of
        Inl e \<Rightarrow> Inl e
      | Inr (alms, langs, unknown) \<Rightarrow>
          init_loop all_languages rest
            (instances_of cogid alms langs als,
             fold (\<lambda>language tp. dict_append cogid language tp) unknown tp))"

definition Baseline_init :: "string list \<Rightarrow> (string, (string, symbol list) dict) dict \<Rightarrow> symbol \<Rightarrow> symbol
    \<Rightarrow> nat \<Rightarrow> error + baseline" where
  "Baseline_init langs table gp ms thr =
     (case init_loop langs table (fold (\<lambda>language d. dict_set language [] d) langs [], []) of
        Inl e \<Rightarrow> Inl e
      | Inr (als, tp) \<Rightarrow>
          Inr \<lparr>languages = langs, data = table, gap = gp, missing = ms,
               classifiers = fold (\<lambda>language d. dict_set language (CorPaR_init thr) d) langs [],
               alignments = als, to_predict = tp, lang_patterns = [], matrices = [],
               solutions = [], sound2idx = [], idx2sound = []\<rparr>)"


text \<open>
  The first loop of \<^verbatim>\<open>Baseline.fit\<close>. One row of an instance's matrix is recorded:
  \<^verbatim>\<open>ptn = tuple(row[:len(self.languages)-1])\<close>,
  \<^verbatim>\<open>self.patterns[language][ptn][row[-1]] += [(cogid, i)]\<close>, and the row's values join the
  set \<^verbatim>\<open>sounds\<close> (a list without duplicates here).
\<close>

type_synonym pattern_table = "(symbol list, (symbol, (string \<times> nat) list) dict) dict"

definition record_row :: "nat \<Rightarrow> string \<Rightarrow> string \<Rightarrow> nat \<times> symbol list
    \<Rightarrow> (string, pattern_table) dict \<times> symbol list \<Rightarrow> (string, pattern_table) dict \<times> symbol list" where
  "record_row n language cogid ir st =
     (let ptn = take (n - 1) (snd ir);
          tab = dict_default [] (fst st) language
      in (dict_set language
            (dict_set ptn (dict_append (last (snd ir)) (cogid, fst ir) (dict_default [] tab ptn)) tab)
            (fst st),
          List.insert (last (snd ir)) (fold List.insert ptn (snd st))))"

fun record_instances :: "(alignment \<Rightarrow> alignment) \<Rightarrow> string list \<Rightarrow> string \<Rightarrow> training_instance list
    \<Rightarrow> (string, pattern_table) dict \<times> symbol list
    \<Rightarrow> error + (string, pattern_table) dict \<times> symbol list" where
  "record_instances aln all_languages language [] st = Inr st"
| "record_instances aln all_languages language ((cogid, langs, alms) # rest) st =
     (case simple_align aln alms langs all_languages True of
        Inl e \<Rightarrow> Inl e
      | Inr alm_matrix \<Rightarrow>
          record_instances aln all_languages language rest
            (fold (record_row (length all_languages) language cogid) (enumerate 0 alm_matrix) st))"

fun collect_patterns :: "(alignment \<Rightarrow> alignment) \<Rightarrow> baseline \<Rightarrow> string list
    \<Rightarrow> (string, pattern_table) dict \<times> symbol list
    \<Rightarrow> error + (string, pattern_table) dict \<times> symbol list" where
  "collect_patterns aln b [] st = Inr st"
| "collect_patterns aln b (language # rest) st =
     (case map_of (alignments b) language of
        None \<Rightarrow> Inl KeyError
      | Some insts \<Rightarrow>
          (case record_instances aln (languages b) language insts st of
             Inl e \<Rightarrow> Inl e
           | Inr st' \<Rightarrow> collect_patterns aln b rest st'))"

text \<open>
  The alphabet:
  \<^verbatim>\<open>dict(zip(sorted(sounds), range(2, len(sounds)+2)))\<close>, then the gap at 1 and the missing
  value at 0, and the inverse dictionary \<^verbatim>\<open>{v: k for k, v in self.sound2idx.items()}\<close>.
\<close>

definition make_sound2idx :: "symbol \<Rightarrow> symbol \<Rightarrow> symbol list \<Rightarrow> (symbol, nat) dict" where
  "make_sound2idx gp ms sounds =
     dict_set ms 0 (dict_set gp 1 (zip (sort sounds) [2..<length sounds + 2]))"

definition make_idx2sound :: "(symbol, nat) dict \<Rightarrow> (nat, symbol) dict" where
  "make_idx2sound s2i = fold (\<lambda>(k, v) d. dict_set v k d) s2i []"

text \<open>
  \<^verbatim>\<open>self.sound2idx.get(char, 0)\<close> and \<^verbatim>\<open>self.idx2sound.get(idx, unknown)\<close> of
  \<^verbatim>\<open>predict\<close>, and the plain read \<^verbatim>\<open>self.sound2idx[sound]\<close> of \<^verbatim>\<open>fit\<close>.
\<close>

definition encode :: "(symbol, nat) dict \<Rightarrow> symbol \<Rightarrow> nat" where
  "encode s2i s = dict_default 0 s2i s"

definition decode :: "(nat, symbol) dict \<Rightarrow> symbol \<Rightarrow> nat \<Rightarrow> symbol" where
  "decode i2s unknown i = dict_default unknown i2s i"

definition sound_index :: "(symbol, nat) dict \<Rightarrow> symbol \<Rightarrow> error + nat" where
  "sound_index s2i s = (case map_of s2i s of None \<Rightarrow> Inl KeyError | Some i \<Rightarrow> Inr i)"

text \<open>
  The second loop of \<^verbatim>\<open>Baseline.fit\<close>: the encoded rows and targets of one language, one
  per recorded occurrence.
\<close>

fun target_rows :: "(symbol, nat) dict \<Rightarrow> pattern \<Rightarrow> (symbol, (string \<times> nat) list) dict
    \<Rightarrow> error + pattern list \<times> nat list" where
  "target_rows s2i row [] = Inr ([], [])"
| "target_rows s2i row ((sound, vals) # rest) =
     (case sound_index s2i sound of
        Inl e \<Rightarrow> Inl e
      | Inr target \<Rightarrow>
          (case target_rows s2i row rest of
             Inl e \<Rightarrow> Inl e
           | Inr (rows, targets) \<Rightarrow> Inr (map (\<lambda>_. row) vals @ rows, map (\<lambda>_. target) vals @ targets)))"

fun training_rows :: "(symbol, nat) dict \<Rightarrow> pattern_table \<Rightarrow> error + pattern list \<times> nat list" where
  "training_rows s2i [] = Inr ([], [])"
| "training_rows s2i ((ptn, sounds) # rest) =
     (case sounds of
        [] \<Rightarrow> training_rows s2i rest
      | _ # _ \<Rightarrow>
          (case collect (map (sound_index s2i) ptn) of
             Inl e \<Rightarrow> Inl e
           | Inr row \<Rightarrow>
               (case target_rows s2i row sounds of
                  Inl e \<Rightarrow> Inl e
                | Inr (rows, targets) \<Rightarrow>
                    (case training_rows s2i rest of
                       Inl e \<Rightarrow> Inl e
                     | Inr (rows', targets') \<Rightarrow> Inr (rows @ rows', targets @ targets')))))"

fun fit_languages :: "(graph \<Rightarrow> pattern list list) \<Rightarrow> string list \<Rightarrow> baseline \<Rightarrow> error + baseline" where
  "fit_languages enum [] b = Inr b"
| "fit_languages enum (language # rest) b =
     (case map_of (lang_patterns b) language of
        None \<Rightarrow> Inl KeyError
      | Some tab \<Rightarrow>
          (case training_rows (sound2idx b) tab of
             Inl e \<Rightarrow> Inl e
           | Inr (rows, targets) \<Rightarrow>
               (let X = dict_default [] (matrices b) language @ rows;
                    y = dict_default [] (solutions b) language @ targets
                in (case map_of (classifiers b) language of
                      None \<Rightarrow> Inl KeyError
                    | Some clf \<Rightarrow>
                        (case fit enum clf X y of
                           Inl e \<Rightarrow> Inl e
                         | Inr clf' \<Rightarrow>
                             fit_languages enum rest
                               (b\<lparr>matrices := dict_set language X (matrices b),
                                  solutions := dict_set language y (solutions b),
                                  classifiers := dict_set language clf' (classifiers b)\<rparr>))))))"

definition Baseline_fit :: "(alignment \<Rightarrow> alignment) \<Rightarrow> (graph \<Rightarrow> pattern list list) \<Rightarrow> baseline
    \<Rightarrow> error + baseline" where
  "Baseline_fit aln enum b =
     (case collect_patterns aln b (languages b)
             (fold (\<lambda>language d. dict_set language [] d) (languages b) [], []) of
        Inl e \<Rightarrow> Inl e
      | Inr (tabs, sounds) \<Rightarrow>
          fit_languages enum (languages b)
            (b\<lparr>lang_patterns := tabs,
               matrices := fold (\<lambda>language d. dict_set language [] d) (languages b) [],
               solutions := fold (\<lambda>language d. dict_set language [] d) (languages b) [],
               sound2idx := make_sound2idx (gap b) (missing b) sounds,
               idx2sound := make_idx2sound (make_sound2idx (gap b) (missing b) sounds)\<rparr>))"

text \<open>
  \<^verbatim>\<open>Baseline.predict\<close>: the known forms are aligned over the languages other than the
  target (no merge, \<^verbatim>\<open>training=False\<close>), encoded, classified by the target's classifier
  and decoded. The classifier's cache is part of the state that comes back.
\<close>

definition Baseline_predict :: "(alignment \<Rightarrow> alignment) \<Rightarrow> baseline \<Rightarrow> string list \<Rightarrow> alignment
    \<Rightarrow> string \<Rightarrow> symbol \<Rightarrow> error + symbol list \<times> baseline" where
  "Baseline_predict aln b langs alms target unknown =
     (case simple_align aln alms langs [l \<leftarrow> languages b. l \<noteq> target] False of
        Inl e \<Rightarrow> Inl e
      | Inr matrix \<Rightarrow>
          (case map_of (classifiers b) target of
             None \<Rightarrow> Inl KeyError
           | Some clf \<Rightarrow>
               (case predict clf (map (map (encode (sound2idx b))) matrix) of
                  Inl e \<Rightarrow> Inl e
                | Inr (out, clf') \<Rightarrow>
                    Inr (map (decode (idx2sound b) unknown) out,
                         b\<lparr>classifiers := dict_set target clf' (classifiers b)\<rparr>))))"

text \<open>
  The set \<^verbatim>\<open>sounds\<close> that \<^verbatim>\<open>Baseline.fit\<close> collects from the rows of all training
  matrices (empty when the first loop raises).
\<close>

definition training_sounds :: "(alignment \<Rightarrow> alignment) \<Rightarrow> baseline \<Rightarrow> symbol list" where
  "training_sounds aln b =
     (case collect_patterns aln b (languages b)
             (fold (\<lambda>language d. dict_set language [] d) (languages b) [], []) of
        Inl e \<Rightarrow> []
      | Inr (tabs, sounds) \<Rightarrow> sounds)"

text \<open>
  \<^verbatim>\<open>bs = Baseline(ifile); bs.fit()\<close> with the default arguments, as \<^verbatim>\<open>predict_words\<close>
  runs it on a loaded table.
\<close>

definition fit_table :: "(alignment \<Rightarrow> alignment) \<Rightarrow> (graph \<Rightarrow> pattern list list) \<Rightarrow> string list
    \<Rightarrow> (string, (string, symbol list) dict) dict \<Rightarrow> error + baseline" where
  "fit_table aln enum langs table =
     ebind (Baseline_init langs table gap_symbol missing_symbol 1) (Baseline_fit aln enum)"

text \<open>
  The alphabet in the words of the specification: the missing value at 0, the gap at 1, and
  the other observed symbols, sorted, at 2, 3, ... without a hole.
\<close>

definition spec_sound2idx :: "symbol \<Rightarrow> symbol \<Rightarrow> symbol list \<Rightarrow> symbol \<Rightarrow> nat option" where
  "spec_sound2idx gp ms sounds =
     (let others = sort [s \<leftarrow> remdups sounds. s \<noteq> gp \<and> s \<noteq> ms]
      in (map_of (zip others [2..<length others + 2]))(gp \<mapsto> 1, ms \<mapsto> 0))"

text \<open>
  A table of two languages whose forms differ in length, so that the alignment has a gap.
\<close>

definition gap_table :: "(string, (string, symbol list) dict) dict" where
  "gap_table = [(''1'', [(''A'', [''a'', ''b'']), (''B'', [''a''])])]"

text \<open>
  \<^verbatim>\<open>Baseline(ifile)\<close> on this table with the default arguments, and the state after
  \<^verbatim>\<open>fit()\<close> (length-normalising aligner).
\<close>

definition gap_baseline :: baseline where
  "gap_baseline = projr (Baseline_init [''A'', ''B''] gap_table gap_symbol missing_symbol 1)"

definition gap_fitted :: baseline where
  "gap_fitted = projr (Baseline_fit normalize_alignment maximal_cliques gap_baseline)"

text \<open>
  A table of three languages with one cognate set whose forms are the single stops \<open>p\<close>,
  \<open>b\<close> and \<open>t\<close>, and \<^verbatim>\<open>Baseline\<close> on it. \<open>three_fitted\<close> is the state that \<^verbatim>\<open>fit\<close>
  reaches when the aligner puts the three segments into one column; the length-normalising
  aligner of the model does, as does the progressive aligner on these similar sounds (with
  unrelated segments such as \<open>a\<close>, \<open>b\<close>, \<open>c\<close> the progressive aligner would spread them over
  several columns with gaps).
\<close>

definition three_table :: "(string, (string, symbol list) dict) dict" where
  "three_table = [(''1'', [(''A'', [''p'']), (''B'', [''b'']), (''C'', [''t''])])]"

definition three_baseline :: baseline where
  "three_baseline = projr (Baseline_init [''A'', ''B'', ''C''] three_table gap_symbol missing_symbol 1)"

definition three_fitted :: baseline where
  "three_fitted = projr (Baseline_fit normalize_alignment maximal_cliques three_baseline)"

text \<open>
  The end-to-end example of the specification: the two training rows, \<^verbatim>\<open>fit\<close>, and the
  prediction of \<open>C\<close> from \<open>A = k u\<close>, \<open>B = k u\<close>.
\<close>

definition training_table :: "(string, (string, symbol list) dict) dict" where
  "training_table =
     [(''1'', [(''A'', [''p'', ''a'']), (''B'', [''p'', ''a'']), (''C'', [''b'', ''a''])]),
      (''2'', [(''A'', [''t'', ''i'']), (''B'', [''t'', ''i'']), (''C'', [''d'', ''i''])])]"

definition end_to_end :: "(graph \<Rightarrow> pattern list list) \<Rightarrow> error + symbol list" where
  "end_to_end enum =
     ebind (fit_table normalize_alignment enum [''A'', ''B'', ''C''] training_table)
       (\<lambda>b. map_sum id fst
              (Baseline_predict normalize_alignment b [''A'', ''B'']
                 [[''k'', ''u''], [''k'', ''u'']] ''C'' ''?''))"



section \<open>The fallback search in the words of the specification\<close>

text \<open>
  The patterns of a list that were not seen before, each once, in the order of their first
  occurrence.
\<close>

fun unvisited :: "'a list \<Rightarrow> 'a list \<Rightarrow> 'a list" where
  "unvisited seen [] = []"
| "unvisited seen (p # ps) =
     (if p \<in> set seen then unvisited seen ps else p # unvisited (p # seen) ps)"

text \<open>
  The candidates gathered from the index over all non-missing positions of the query, from
  left to right, each once.
\<close>

definition spec_gathered :: "(nat \<times> nat, pattern list) dict \<Rightarrow> pattern \<Rightarrow> pattern list" where
  "spec_gathered idx q =
     unvisited [] (concat (map (\<lambda>i. if q ! i \<noteq> 0 then dict_default [] idx (i, q ! i) else [])
                             [0..<length q]))"

text \<open>
  The score of a candidate: a match without mismatch scores its match count plus the
  length of the query (above every score of the second kind), a candidate with mismatches
  scores match minus mismatch, and is discarded when that is zero.
\<close>

definition spec_score :: "pattern \<Rightarrow> pattern \<Rightarrow> int option" where
  "spec_score q p =
     (case compatible q p of (match, mismatch) \<Rightarrow>
        if match \<noteq> 0 \<and> mismatch = 0 then Some (int match + int (length q))
        else if match \<noteq> mismatch then Some (int match - int mismatch)
        else None)"

definition spec_candidates :: "(nat \<times> nat, pattern list) dict \<Rightarrow> pattern \<Rightarrow> (pattern \<times> int) list" where
  "spec_candidates idx q =
     List.map_filter (\<lambda>p. map_option (Pair p) (spec_score q p)) (spec_gathered idx q)"

text \<open>
  The result on a miss of the exact table: the missing value when no candidate is kept,
  else the target of the first candidate with the highest score, cached under the query.
\<close>

definition spec_fallback :: "classifier \<Rightarrow> pattern \<Rightarrow> error + nat \<times> classifier" where
  "spec_fallback clf q =
     (let cands = spec_candidates (ptnlkp clf) q
      in (case find (\<lambda>c. \<forall>c' \<in> set cands. snd c' \<le> snd c) cands of
            None \<Rightarrow> Inr (0, clf)
          | Some (p, s) \<Rightarrow>
              (case map_of (predictions clf) p of
                 None \<Rightarrow> Inl KeyError
               | Some t \<Rightarrow> Inr (t, clf\<lparr>predictions := dict_set q t (predictions clf)\<rparr>))))"

text \<open>
  The invariant of a fitted classifier that makes the search total: every pattern of the
  index has an entry in the prediction table.
\<close>

definition index_resolved :: "classifier \<Rightarrow> bool" where
  "index_resolved clf \<longleftrightarrow>
     (\<forall>entry \<in> set (ptnlkp clf). \<forall>p \<in> set (snd entry). p \<in> fst ` set (predictions clf))"

text \<open>
  Two fitted classifiers: one with the single consensus \<open>(5, 6, 7) \<rightarrow> 9\<close>, and one with the
  two consensus source patterns \<open>(5, 5, 0)\<close> and \<open>(5, 5, 6)\<close>.
\<close>

definition one_clique_fitted :: classifier where
  "one_clique_fitted = projr (fit maximal_cliques (CorPaR_init 1) [[5, 6, 7], [5, 6, 0]] [9, 9])"

definition two_patterns_fitted :: classifier where
  "two_patterns_fitted =
     projr (fit maximal_cliques (CorPaR_init 1)
              [[5, 5, 0], [5, 0, 0], [5, 5, 0], [5, 5, 6], [0, 5, 6]] [9, 9, 8, 8, 8])"



section \<open>Properties of the proto-gap merge\<close>

lemma merge_loop_Nil: "merge_loop merges k [] st = st"
  by (simp add: merge_loop_def)

lemma merge_loop_Cons:
  "merge_loop merges k (c # row) st = merge_loop merges (Suc k) row (merge_step merges (k, c) st)"
  by (simp add: merge_loop_def)

lemma merge_step_ok: "loop_ok st \<Longrightarrow> loop_ok (merge_step merges (j, c) st)"
  by (cases st) auto

lemma merge_loop_nonempty: "loop_ok st \<Longrightarrow> loop_ok (merge_loop merges k row st)"
  by (induction row arbitrary: k st) (simp_all add: merge_loop_Nil merge_loop_Cons merge_step_ok)

lemma merge_step_shape:
  "loop_ok s1 \<Longrightarrow> loop_ok s2 \<Longrightarrow> shape s1 = shape s2 \<Longrightarrow>
   shape (merge_step merges (j, c1) s1) = shape (merge_step merges (j, c2) s2)"
  by (cases s1; cases s2) auto

lemma merge_loop_shape:
  "length r1 = length r2 \<Longrightarrow> loop_ok s1 \<Longrightarrow> loop_ok s2 \<Longrightarrow> shape s1 = shape s2 \<Longrightarrow>
   shape (merge_loop merges k r1 s1) = shape (merge_loop merges k r2 s2)"
proof (induction r1 r2 arbitrary: k s1 s2 rule: list_induct2)
  case Nil
  then show ?case by (simp add: merge_loop_Nil)
next
  case (Cons c1 r1 c2 r2)
  show ?case
    unfolding merge_loop_Cons
    by (rule Cons.IH) (simp_all add: merge_step_ok merge_step_shape Cons.prems)
qed

lemma merge_step_length:
  "loop_ok st \<Longrightarrow> fst (shape (merge_step merges (j, c) st)) \<le> Suc (fst (shape st))"
  by (cases st) auto

lemma merge_loop_length:
  "loop_ok st \<Longrightarrow> fst (shape (merge_loop merges k row st)) \<le> fst (shape st) + length row"
proof (induction row arbitrary: k st)
  case Nil
  then show ?case by (simp add: merge_loop_Nil)
next
  case (Cons c row)
  have "fst (shape (merge_loop merges (Suc k) row (merge_step merges (k, c) st)))
      \<le> fst (shape (merge_step merges (k, c) st)) + length row"
    by (rule Cons.IH) (simp add: merge_step_ok Cons.prems)
  also have "\<dots> \<le> Suc (fst (shape st)) + length row"
    using merge_step_length [OF Cons.prems] by simp
  finally show ?case by (simp add: merge_loop_Cons)
qed

lemma length_ungap_row_eq:
  "length r1 = length r2 \<Longrightarrow> length (ungap_row merges r1) = length (ungap_row merges r2)"
proof -
  assume len: "length r1 = length r2"
  have "shape (merge_loop merges 0 r1 ([], False, True)) = shape (merge_loop merges 0 r2 ([], False, True))"
    by (rule merge_loop_shape [OF len]) simp_all
  then show ?thesis
    by (cases "merge_loop merges 0 r1 ([], False, True)"; cases "merge_loop merges 0 r2 ([], False, True)")
       (simp add: ungap_row_def fill_gaps_def)
qed

lemma length_ungap_row_le: "length (ungap_row merges row) \<le> length row"
proof -
  have "fst (shape (merge_loop merges 0 row ([], False, True))) \<le> fst (shape ([], False, True)) + length row"
    by (rule merge_loop_length) simp
  then show ?thesis
    by (cases "merge_loop merges 0 row ([], False, True)") (simp add: ungap_row_def fill_gaps_def)
qed

lemma merges_of_rect:
  "alignment \<noteq> [] \<Longrightarrow> \<forall>row \<in> set alignment. length row = n \<Longrightarrow>
   merges_of alignment pidxs = Inr [i \<leftarrow> [0..<n]. mergeable (col_rest pidxs (column alignment i))]"
  by (cases alignment) (auto simp: merges_of_def)

text \<open>
  C10 (shape of the result). For a non-empty rectangular alignment \<^verbatim>\<open>ungap\<close> returns
  without error; the result has as many rows as the input, row \<open>i\<close> of the result is
  computed from row \<open>i\<close> of the input alone (it is that row, or \<open>ungap_row\<close> of it, with the
  same list of merged columns for every row), and all rows of the result have one common
  length, at most the input's width.
\<close>

theorem ungap_shape:
  assumes "alignment \<noteq> []" and "\<forall>row \<in> set alignment. length row = n"
  shows "\<exists>out merges k. merges_of alignment (pidxs_of taxa proto) = Inr merges
           \<and> ungap alignment taxa proto = Inr out
           \<and> length out = length alignment
           \<and> (\<forall>i < length alignment.
                 out ! i = (if merges = [] then alignment ! i else ungap_row merges (alignment ! i)))
           \<and> k \<le> n \<and> (\<forall>row \<in> set out. length row = k)"
proof -
  define merges where "merges = [i \<leftarrow> [0..<n]. mergeable (col_rest (pidxs_of taxa proto) (column alignment i))]"
  have m: "merges_of alignment (pidxs_of taxa proto) = Inr merges"
    unfolding merges_def by (rule merges_of_rect [OF assms])
  show ?thesis
  proof (cases "merges = []")
    case True
    then have "ungap alignment taxa proto = Inr alignment"
      by (simp add: ungap_def m)
    with True assms(2) m show ?thesis by auto
  next
    case False
    obtain row0 where row0: "row0 \<in> set alignment"
      using assms(1) by (cases alignment) auto
    let ?k = "length (ungap_row merges row0)"
    have out: "ungap alignment taxa proto = Inr (map (ungap_row merges) alignment)"
      using False by (simp add: ungap_def m)
    have "\<forall>row \<in> set alignment. length (ungap_row merges row) = ?k"
      using assms(2) row0 by (auto intro: length_ungap_row_eq)
    moreover have "?k \<le> n"
      using length_ungap_row_le [of merges row0] assms(2) row0 by auto
    ultimately show ?thesis
      using out False m by auto
  qed
qed

theorem ungap_shape_witness:
  "[[''a'', ''-'', ''c''], [''x'', ''y'', ''b'']] \<noteq> []
   \<and> map length [[''a'', ''-'', ''c''], [''x'', ''y'', ''b'']] = [3, 3]
   \<and> (\<exists>out merges k.
         merges_of [[''a'', ''-'', ''c''], [''x'', ''y'', ''b'']] (pidxs_of [''L1'', ''P''] ''P'') = Inr merges
       \<and> ungap [[''a'', ''-'', ''c''], [''x'', ''y'', ''b'']] [''L1'', ''P''] ''P'' = Inr out
       \<and> length out = length [[''a'', ''-'', ''c''], [''x'', ''y'', ''b'']]
       \<and> (\<forall>i < length [[''a'', ''-'', ''c''], [''x'', ''y'', ''b'']].
              out ! i = (if merges = [] then [[''a'', ''-'', ''c''], [''x'', ''y'', ''b'']] ! i
                         else ungap_row merges ([[''a'', ''-'', ''c''], [''x'', ''y'', ''b'']] ! i)))
       \<and> k \<le> 3 \<and> (\<forall>row \<in> set out. length row = k))"
proof -
  have h1: "[[''a'', ''-'', ''c''], [''x'', ''y'', ''b'']] \<noteq> []"
    by simp
  have h2: "\<forall>row \<in> set [[''a'', ''-'', ''c''], [''x'', ''y'', ''b'']]. length row = 3"
    by simp
  show ?thesis
    by (intro conjI h1 ungap_shape [OF h1 h2]) simp
qed

text \<open>
  C3 (collapsing of mergeable columns, also when the first column is mergeable). The code
  at an alignment whose first and last columns are mergeable (reference language \<open>P\<close>):
  both columns are found mergeable, yet the alignment comes back as it was. With the first
  column mergeable the loop sets \<^verbatim>\<open>mergeit\<close> while \<^verbatim>\<open>started\<close> is still true, the next
  column takes the same branch again, and so on to the end of the row: no column is ever
  merged into its predecessor, and the leading run is not collapsed into one cell either.
\<close>

theorem ungap_leading_mergeable_column:
  "merges_of [[''-'', ''a'', ''-''], [''x'', ''b'', ''z'']] (pidxs_of [''L1'', ''P''] ''P'') = Inr [0, 2]
   \<and> ungap [[''-'', ''a'', ''-''], [''x'', ''b'', ''z'']] [''L1'', ''P''] ''P''
       = Inr [[''-'', ''a'', ''-''], [''x'', ''b'', ''z'']]"
  by code_simp

lemma fill_gaps_id: "[] \<notin> set xs \<Longrightarrow> fill_gaps xs = xs"
  by (induction xs) (auto simp: fill_gaps_def)

lemma merge_loop_sticky:
  "row \<noteq> [] \<Longrightarrow> (mergeit \<or> k \<in> set merges) \<Longrightarrow>
   merge_loop merges k row (new_alm, mergeit, True) = (new_alm @ map degap row, True, True)"
proof (induction row arbitrary: k new_alm mergeit)
  case Nil
  then show ?case by simp
next
  case (Cons c row)
  show ?case
  proof (cases "row = []")
    case True
    with Cons.prems show ?thesis
      by (auto simp: merge_loop_Cons merge_loop_Nil degap_def)
  next
    case False
    have "merge_loop merges k (c # row) (new_alm, mergeit, True)
        = merge_loop merges (Suc k) row (new_alm @ [degap c], True, True)"
      using Cons.prems by (auto simp: merge_loop_Cons degap_def)
    also have "\<dots> = ((new_alm @ [degap c]) @ map degap row, True, True)"
      by (rule Cons.IH [OF False]) simp
    finally show ?thesis by simp
  qed
qed

lemma ungap_row_leading:
  assumes "0 \<in> set merges" and "[] \<notin> set row"
  shows "ungap_row merges row = row"
proof (cases "row = []")
  case True
  then show ?thesis by (simp add: ungap_row_def merge_loop_Nil fill_gaps_def)
next
  case False
  have "fill_gaps (map degap row) = row"
    using assms(2) by (induction row) (auto simp: fill_gaps_def degap_def)
  then show ?thesis
    using merge_loop_sticky [OF False, of False 0 merges "[]"] assms(1)
    by (simp add: ungap_row_def)
qed

lemma merge_loop_plain:
  "\<forall>p \<in> set (enumerate k row). fst p \<in> set merges \<longrightarrow> snd p = ''-'' \<Longrightarrow>
   merge_loop merges k row (new_alm, False, False) = (new_alm @ keep merges k row, False, False)"
proof (induction row arbitrary: k new_alm)
  case Nil
  then show ?case by (simp add: merge_loop_Nil keep_def)
next
  case (Cons c row)
  have rest: "\<forall>p \<in> set (enumerate (Suc k) row). fst p \<in> set merges \<longrightarrow> snd p = ''-''"
    using Cons.prems by simp
  show ?case
  proof (cases "k \<in> set merges")
    case True
    then have "c = ''-''" using Cons.prems by simp
    with True show ?thesis
      using Cons.IH [OF rest, of new_alm] by (simp add: merge_loop_Cons keep_def)
  next
    case False
    then show ?thesis
      using Cons.IH [OF rest, of "new_alm @ [c]"] by (simp add: merge_loop_Cons keep_def)
  qed
qed

lemma ungap_row_plain:
  assumes "0 \<notin> set merges" and "[] \<notin> set row"
    and "\<forall>p \<in> set (enumerate 0 row). fst p \<in> set merges \<longrightarrow> snd p = ''-''"
  shows "ungap_row merges row = keep merges 0 row"
proof (cases row)
  case Nil
  then show ?thesis by (simp add: ungap_row_def merge_loop_Nil fill_gaps_def keep_def)
next
  case (Cons c cs)
  have rest: "\<forall>p \<in> set (enumerate (Suc 0) cs). fst p \<in> set merges \<longrightarrow> snd p = ''-''"
    using assms(3) Cons by simp
  have "merge_loop merges 0 row ([], False, True) = ([c] @ keep merges (Suc 0) cs, False, False)"
    using assms(1) merge_loop_plain [OF rest, of "[c]"] by (simp add: Cons merge_loop_Cons)
  also have "[c] @ keep merges (Suc 0) cs = keep merges 0 row"
    using assms(1) by (simp add: Cons keep_def)
  finally have "ungap_row merges row = fill_gaps (keep merges 0 row)"
    by (simp add: ungap_row_def)
  moreover have "set (keep merges 0 row) \<subseteq> set row"
    unfolding keep_def by (auto simp: in_set_enumerate_eq)
  then have "[] \<notin> set (keep merges 0 row)"
    using assms(2) by auto
  then have "fill_gaps (keep merges 0 row) = keep merges 0 row"
    by (rule fill_gaps_id)
  ultimately show ?thesis by simp
qed


lemma pick_nth:
  "map snd [p \<leftarrow> enumerate 0 xs. fst p \<notin> S] = map ((!) xs) [i \<leftarrow> [0..<length xs]. i \<notin> S]"
proof -
  have "enumerate 0 xs = map (\<lambda>i. (i, xs ! i)) [0..<length xs]"
    by (rule nth_equalityI) (simp_all add: nth_enumerate_eq)
  then show ?thesis
    by (simp add: filter_map comp_def)
qed

lemma keep_nth: "keep merges 0 row = map ((!) row) [i \<leftarrow> [0..<length row]. i \<notin> set merges]"
  unfolding keep_def by (rule pick_nth)

lemma col_rest_nth: "col_rest pidxs col = map ((!) col) [j \<leftarrow> [0..<length col]. j \<notin> set pidxs]"
  unfolding col_rest_def by (rule pick_nth)

lemma mergeable_all_gap: "mergeable cr \<Longrightarrow> c \<in> set cr \<Longrightarrow> c = ''-''"
proof -
  assume m: "mergeable cr" and c: "c \<in> set cr"
  from m have "card (set cr) = 1" and g: "''-'' \<in> set cr"
    by (simp_all add: mergeable_def length_remdups_card_conv)
  then obtain x where "set cr = {x}"
    by (metis card_1_singletonE)
  with c g show ?thesis by auto
qed

lemma not_mergeable_Nil: "\<not> mergeable []"
  by (simp add: mergeable_def)

text \<open>
  C7 (idempotence). For a non-empty rectangular alignment whose cells are non-empty symbols
  (cells are tokens of a whitespace split, or the gap), merging the result of the merge again
  returns it unchanged. When the first column is not mergeable the second pass finds no
  mergeable column; when it is, the first pass already returned the alignment unchanged.
\<close>

theorem ungap_idempotent:
  assumes ne: "alignment \<noteq> []"
    and rect: "\<forall>row \<in> set alignment. length row = n"
    and cells: "\<forall>row \<in> set alignment. [] \<notin> set row"
    and out: "ungap alignment taxa proto = Inr out"
  shows "ungap out taxa proto = Inr out"
proof -
  define pidxs where "pidxs = pidxs_of taxa proto"
  define merges where "merges = [i \<leftarrow> [0..<n]. mergeable (col_rest pidxs (column alignment i))]"
  define nm where "nm = [i \<leftarrow> [0..<n]. i \<notin> set merges]"
  have m: "merges_of alignment (pidxs_of taxa proto) = Inr merges"
    unfolding merges_def pidxs_def by (rule merges_of_rect [OF ne rect])
  consider (none) "merges = []" | (leading) "0 \<in> set merges" | (inner) "merges \<noteq> []" "0 \<notin> set merges"
    by blast
  then show ?thesis
  proof cases
    case none
    with out m have "out = alignment" by (simp add: ungap_def)
    with out show ?thesis by simp
  next
    case leading
    then have "merges \<noteq> []" by auto
    with out m have "out = map (ungap_row merges) alignment" by (simp add: ungap_def)
    also have "\<dots> = alignment"
      using cells leading by (simp add: map_idI ungap_row_leading)
    finally show ?thesis using out by simp
  next
    case inner
    from out m inner(1) have out_eq: "out = map (ungap_row merges) alignment"
      by (simp add: ungap_def)
    have col_len: "length (column alignment i) = length alignment" for i
      by (simp add: column_def)
    have gap: "alignment ! j ! i = ''-''"
      if "j < length alignment" "j \<notin> set pidxs" "i \<in> set merges" for i j
    proof -
      from that(3) have mg: "mergeable (col_rest pidxs (column alignment i))"
        by (simp add: merges_def)
      have "column alignment i ! j \<in> set (col_rest pidxs (column alignment i))"
        using that(1,2) by (auto simp: col_rest_nth col_len)
      then have "column alignment i ! j = ''-''"
        by (rule mergeable_all_gap [OF mg])
      then show ?thesis using that(1) by (simp add: column_def)
    qed
    have plain: "ungap_row merges (alignment ! j) = map ((!) (alignment ! j)) nm"
      if "j < length alignment" "j \<notin> set pidxs" for j
    proof -
      have row: "alignment ! j \<in> set alignment" using that(1) by simp
      have "\<forall>p \<in> set (enumerate 0 (alignment ! j)). fst p \<in> set merges \<longrightarrow> snd p = ''-''"
        using gap [OF that] by (auto simp: in_set_enumerate_eq)
      then have "ungap_row merges (alignment ! j) = keep merges 0 (alignment ! j)"
        using inner(2) cells row by (intro ungap_row_plain) auto
      then show ?thesis using rect row by (simp add: keep_nth nm_def)
    qed
    obtain j0 where j0: "j0 < length alignment" "j0 \<notin> set pidxs"
    proof (rule ccontr)
      assume "\<not> thesis"
      then have "\<forall>j < length alignment. j \<in> set pidxs" using that by blast
      then have "col_rest pidxs (column alignment i) = []" for i
        by (auto simp: col_rest_nth col_len filter_empty_conv)
      then have "merges = []"
        by (simp add: merges_def not_mergeable_Nil)
      with inner(1) show False by simp
    qed
    have out_ne: "out \<noteq> []" using ne by (simp add: out_eq)
    have out_rect: "\<forall>row \<in> set out. length row = length nm"
    proof
      fix row assume "row \<in> set out"
      then obtain r where r: "r \<in> set alignment" "row = ungap_row merges r"
        by (auto simp: out_eq)
      have "length r = length (alignment ! j0)"
        using rect r(1) j0(1) by simp
      then have "length row = length (ungap_row merges (alignment ! j0))"
        unfolding r(2) by (rule length_ungap_row_eq)
      then show "length row = length nm"
        by (simp add: plain [OF j0])
    qed
    have m2: "merges_of out pidxs = Inr [i \<leftarrow> [0..<length nm]. mergeable (col_rest pidxs (column out i))]"
      by (rule merges_of_rect [OF out_ne out_rect])
    have "\<not> mergeable (col_rest pidxs (column out i))" if "i < length nm" for i
    proof -
      have "col_rest pidxs (column out i) = col_rest pidxs (column alignment (nm ! i))"
        unfolding col_rest_nth using that
        by (auto simp: column_def out_eq plain)
      moreover have "nm ! i \<in> set nm" using that by simp
      then have "nm ! i < n" "nm ! i \<notin> set merges"
        by (auto simp: nm_def)
      then have "\<not> mergeable (col_rest pidxs (column alignment (nm ! i)))"
        by (auto simp: merges_def)
      ultimately show ?thesis by simp
    qed
    then have "[i \<leftarrow> [0..<length nm]. mergeable (col_rest pidxs (column out i))] = []"
      by (simp add: filter_empty_conv)
    with m2 show ?thesis
      by (simp add: ungap_def pidxs_def)
  qed
qed

theorem ungap_idempotent_witness:
  "[[''a'', ''-'', ''c''], [''x'', ''y'', ''b'']] \<noteq> []
   \<and> list_all (\<lambda>row. length row = 3) [[''a'', ''-'', ''c''], [''x'', ''y'', ''b'']]
   \<and> list_all (\<lambda>row. [] \<notin> set row) [[''a'', ''-'', ''c''], [''x'', ''y'', ''b'']]
   \<and> ungap [[''a'', ''-'', ''c''], [''x'', ''y'', ''b'']] [''L1'', ''P''] ''P''
       = Inr [[''a'', ''c''], [''x.y'', ''b'']]
   \<and> ungap [[''a'', ''c''], [''x.y'', ''b'']] [''L1'', ''P''] ''P'' = Inr [[''a'', ''c''], [''x.y'', ''b'']]"
proof -
  have h1: "[[''a'', ''-'', ''c''], [''x'', ''y'', ''b'']] \<noteq> []"
    by simp
  have h2: "\<forall>row \<in> set [[''a'', ''-'', ''c''], [''x'', ''y'', ''b'']]. length row = 3"
    by simp
  have h3: "\<forall>row \<in> set [[''a'', ''-'', ''c''], [''x'', ''y'', ''b'']]. [] \<notin> set row"
    by simp
  have h4: "ungap [[''a'', ''-'', ''c''], [''x'', ''y'', ''b'']] [''L1'', ''P''] ''P''
      = Inr [[''a'', ''c''], [''x.y'', ''b'']]"
    by code_simp
  show ?thesis
    by (intro conjI h1 h4 ungap_idempotent [OF h1 h2 h3 h4]) simp_all
qed

section \<open>Properties of the dictionaries\<close>

lemma map_of_dict_set: "map_of (dict_set k v d) = (map_of d)(k \<mapsto> v)"
  by (induction d) (auto simp: fun_eq_iff)

lemma map_fst_dict_set:
  "map fst (dict_set k v d) = (if k \<in> set (map fst d) then map fst d else map fst d @ [k])"
  by (induction d) force+

lemma keys_dict_set: "fst ` set (dict_set k v d) = insert k (fst ` set d)"
  using arg_cong [OF map_fst_dict_set [of k v d], of set] by auto

lemma distinct_dict_set: "distinct (map fst d) \<Longrightarrow> distinct (map fst (dict_set k v d))"
  by (simp add: map_fst_dict_set)

lemma dict_default_Nil: "dict_default v0 [] k = v0"
  by (simp add: dict_default_def)

section \<open>Fitting on fewer than two distinct tuples\<close>

lemma group_rows_keys:
  "i + length X \<le> length y \<Longrightarrow> distinct (map fst P0) \<Longrightarrow>
   \<exists>P. group_rows i X y P0 = Inr P \<and> distinct (map fst P)
     \<and> fst ` set P = fst ` set P0 \<union> set (map2 (\<lambda>row t. row @ [t]) X (drop i y))"
proof (induction X arbitrary: i P0)
  case Nil
  then show ?case by simp
next
  case (Cons row X)
  let ?P1 = "dict_append (row @ [y ! i]) i P0"
  have i: "i < length y" using Cons.prems(1) by simp
  have d1: "distinct (map fst ?P1)"
    unfolding dict_append_def by (rule distinct_dict_set [OF Cons.prems(2)])
  have "Suc i + length X \<le> length y" using Cons.prems(1) by simp
  from Cons.IH [OF this d1] obtain P where P: "group_rows (Suc i) X y ?P1 = Inr P"
    "distinct (map fst P)"
    "fst ` set P = fst ` set ?P1 \<union> set (map2 (\<lambda>row t. row @ [t]) X (drop (Suc i) y))"
    by blast
  have dr: "drop i y = y ! i # drop (Suc i) y"
    using i by (simp add: Cons_nth_drop_Suc)
  have "fst ` set P = fst ` set P0 \<union> set (map2 (\<lambda>row t. row @ [t]) (row # X) (drop i y))"
    unfolding P(3) dr by (simp add: dict_append_def keys_dict_set)
  with P(1,2) i show ?case by simp
qed

lemma combinations2_short: "length xs < 2 \<Longrightarrow> combinations2 xs = []"
  by (cases xs rule: combinations2.cases) (auto simp: less_Suc_eq)

lemma gather_empty_index: "gather [] ptn = []"
proof -
  have "fold (\<lambda>i st. if ptn ! i \<noteq> 0 then fold (visit ptn) (dict_default [] [] (i, ptn ! i)) st else st) is st = st"
    for "is" :: "nat list" and st
    by (induction "is") (simp_all add: dict_default_Nil)
  then show ?thesis by (simp add: gather_def)
qed

lemma predict_empty_tables:
  "fitted clf \<Longrightarrow> predictions clf = [] \<Longrightarrow> ptnlkp clf = [] \<Longrightarrow>
   predict clf matrix = Inr (replicate (length matrix) 0, clf)"
  by (induction matrix) (simp_all add: predict_row_def gather_empty_index sorted_desc_def)

text \<open>
  C9 (fewer than two distinct tuples). With a target for every row (\<^verbatim>\<open>y[i]\<close> exists) and
  fewer than two distinct (pattern, target) tuples, \<^verbatim>\<open>fit\<close> on a new classifier returns
  without error, with a graph without nodes and edges and empty tables; on the fitted
  classifier \<^verbatim>\<open>predict\<close> returns the missing value 0 for every row of every matrix,
  without error, and leaves the classifier as it is (so the same holds for every later
  call).
\<close>

theorem fit_few_tuples:
  assumes "length X \<le> length y"
    and "length (remdups (map2 (\<lambda>row t. row @ [t]) X y)) < 2"
  shows "\<exists>clf. fit enum (CorPaR_init thr) X y = Inr clf
           \<and> G clf = empty_graph \<and> patterns clf = [] \<and> lookup clf = []
           \<and> predictions clf = [] \<and> ptnlkp clf = []
           \<and> (\<forall>matrix. predict clf matrix = Inr (replicate (length matrix) 0, clf))"
proof -
  obtain P where P: "group_rows 0 X y [] = Inr P" "distinct (map fst P)"
    "fst ` set P = set (map2 (\<lambda>row t. row @ [t]) X y)"
    using group_rows_keys [of 0 X y "[]"] assms(1) by auto
  have "length P = card (fst ` set P)"
    using P(2) by (metis distinct_card length_map set_map)
  also have "\<dots> = length (remdups (map2 (\<lambda>row t. row @ [t]) X y))"
    unfolding P(3) by (simp add: length_remdups_card_conv)
  finally have "length P < 2" using assms(2) by simp
  then have g: "make_graph t P empty_graph = empty_graph" for t
    by (simp add: make_graph_def combinations2_short)
  let ?clf = "(CorPaR_init thr)\<lparr>G := empty_graph, fitted := True, patterns := [], lookup := [],
     predictions := [], ptnlkp := []\<rparr>"
  have G0: "G (CorPaR_init thr) = empty_graph" and gn: "g_nodes empty_graph = []"
    by (simp_all add: CorPaR_init_def empty_graph_def)
  have "fit enum (CorPaR_init thr) X y = Inr ?clf"
    by (simp add: fit_def P(1) ebind_def Let_def G0 g gn find_cliques_def make_index_def)
  moreover have "predict ?clf matrix = Inr (replicate (length matrix) 0, ?clf)" for matrix
    by (rule predict_empty_tables) simp_all
  ultimately show ?thesis by simp
qed

theorem fit_few_tuples_witness:
  "length [[1, 2], [1, 2 :: nat]] \<le> length [9, 9 :: nat]
   \<and> length (remdups (map2 (\<lambda>row t. row @ [t]) [[1, 2], [1, 2 :: nat]] [9, 9])) < 2
   \<and> (\<exists>clf. fit maximal_cliques (CorPaR_init 1) [[1, 2], [1, 2]] [9, 9] = Inr clf
           \<and> G clf = empty_graph \<and> patterns clf = [] \<and> lookup clf = []
           \<and> predictions clf = [] \<and> ptnlkp clf = []
           \<and> (\<forall>matrix. predict clf matrix = Inr (replicate (length matrix) 0, clf)))"
proof -
  have h1: "length [[1, 2], [1, 2 :: nat]] \<le> length [9, 9 :: nat]"
    by simp
  have h2: "length (remdups (map2 (\<lambda>row t. row @ [t]) [[1, 2], [1, 2 :: nat]] [9, 9])) < 2"
    by simp
  show ?thesis
    by (intro conjI h1 h2 fit_few_tuples [OF h1 h2])
qed

section \<open>The sound alphabet\<close>

lemma snd_dict_set: "snd ` set (dict_set k v d) \<subseteq> insert v (snd ` set d)"
  by (induction d) (fastforce split: if_splits)+

lemma distinct_snd_dict_set:
  "distinct (map snd d) \<Longrightarrow> v \<notin> snd ` set d \<Longrightarrow> distinct (map snd (dict_set k v d))"
proof (induction d)
  case Nil
  then show ?case by simp
next
  case (Cons p d)
  then show ?case
    using snd_dict_set [of k v d] by (cases p) auto
qed

lemma map_of_inverse_fold:
  "map_of (fold (\<lambda>(k, v) d. dict_set v k d) xs d0)
     = map_of d0 ++ map_of (rev (map (\<lambda>(k, v). (v, k)) xs))"
proof (induction xs arbitrary: d0)
  case Nil
  then show ?case by simp
next
  case (Cons p xs)
  obtain k v where p: "p = (k, v)" by (cases p)
  show ?case
    by (auto simp: p Cons.IH map_of_dict_set fun_eq_iff map_add_def split: option.splits)
qed

lemma make_idx2sound_Some:
  assumes "distinct (map snd s2i)" and "(s, i) \<in> set s2i"
  shows "map_of (make_idx2sound s2i) i = Some s"
proof -
  have "distinct (map fst (rev (map (\<lambda>(k, v). (v, k)) s2i)))"
    using assms(1) by (simp add: rev_map [symmetric] comp_def case_prod_unfold)
  moreover have "(i, s) \<in> set (rev (map (\<lambda>(k, v). (v, k)) s2i))"
    using assms(2) by force
  ultimately have "map_of (rev (map (\<lambda>(k, v). (v, k)) s2i)) i = Some s"
    by (rule map_of_is_SomeI)
  then show ?thesis
    by (simp add: make_idx2sound_def map_of_inverse_fold)
qed

lemma make_idx2sound_None:
  assumes "i \<notin> snd ` set s2i"
  shows "map_of (make_idx2sound s2i) i = None"
proof -
  have "i \<notin> fst ` set (rev (map (\<lambda>(k, v). (v, k)) s2i))"
    using assms by force
  then have "map_of (rev (map (\<lambda>(k, v). (v, k)) s2i)) i = None"
    by (simp add: map_of_eq_None_iff)
  then show ?thesis
    by (simp add: make_idx2sound_def map_of_inverse_fold)
qed

lemma alphabet_values:
  assumes "length ks = length vs" and "distinct vs" and "\<forall>v \<in> set vs. 2 \<le> v"
  shows "distinct (map snd (dict_set ms 0 (dict_set gp (Suc 0) (zip ks vs))))"
proof -
  have b: "map snd (zip ks vs) = vs"
    using assms(1) by simp
  have s0: "snd ` set (zip ks vs) = set vs"
    using arg_cong [OF b, of set] by simp
  have d0: "distinct (map snd (zip ks vs))"
    using assms(2) by (simp add: b)
  have "Suc 0 \<notin> snd ` set (zip ks vs)"
    unfolding s0 using assms(3) by force
  then have d1: "distinct (map snd (dict_set gp (Suc 0) (zip ks vs)))"
    by (rule distinct_snd_dict_set [OF d0])
  have s1: "snd ` set (dict_set gp (Suc 0) (zip ks vs)) \<subseteq> insert (Suc 0) (set vs)"
    using snd_dict_set [of gp "Suc 0" "zip ks vs"] by (simp add: s0)
  have "0 \<notin> insert (Suc 0) (set vs)"
    using assms(3) by force
  with s1 have "0 \<notin> snd ` set (dict_set gp (Suc 0) (zip ks vs))"
    by blast
  then show ?thesis
    by (rule distinct_snd_dict_set [OF d1])
qed

lemma alphabet_keys:
  assumes "length ks = length vs"
  shows "fst ` set (dict_set ms 0 (dict_set gp (Suc 0) (zip ks vs))) = insert ms (insert gp (set ks))"
proof -
  have "map fst (zip ks vs) = ks"
    using assms by simp
  from arg_cong [OF this, of set] have "fst ` set (zip ks vs) = set ks"
    by simp
  then show ?thesis
    by (simp add: keys_dict_set)
qed

lemma distinct_snd_make_sound2idx: "distinct (map snd (make_sound2idx gp ms sounds))"
  unfolding make_sound2idx_def One_nat_def
  by (rule alphabet_values) (simp_all del: upt_Suc)

lemma keys_make_sound2idx:
  "fst ` set (make_sound2idx gp ms sounds) = insert ms (insert gp (set sounds))"
proof -
  have "fst ` set (make_sound2idx gp ms sounds) = insert ms (insert gp (set (sort sounds)))"
    unfolding make_sound2idx_def One_nat_def
    by (rule alphabet_keys) (simp del: upt_Suc)
  then show ?thesis by simp
qed

lemma round_trip:
  assumes "s \<in> insert ms (insert gp (set sounds))"
  shows "decode (make_idx2sound (make_sound2idx gp ms sounds)) unknown
           (encode (make_sound2idx gp ms sounds) s) = s"
proof -
  let ?s2i = "make_sound2idx gp ms sounds"
  from assms have "s \<in> fst ` set ?s2i"
    unfolding keys_make_sound2idx .
  then obtain i where i: "map_of ?s2i s = Some i"
    by (metis map_of_eq_None_iff not_Some_eq)
  then have "(s, i) \<in> set ?s2i"
    by (rule map_of_SomeD)
  then have "map_of (make_idx2sound ?s2i) i = Some s"
    by (rule make_idx2sound_Some [OF distinct_snd_make_sound2idx])
  with i show ?thesis
    by (simp add: decode_def encode_def dict_default_def)
qed

lemma encode_unseen:
  assumes "s \<notin> insert ms (insert gp (set sounds))"
  shows "encode (make_sound2idx gp ms sounds) s = 0"
proof -
  from assms have "s \<notin> fst ` set (make_sound2idx gp ms sounds)"
    unfolding keys_make_sound2idx .
  then have "map_of (make_sound2idx gp ms sounds) s = None"
    by (simp add: map_of_eq_None_iff)
  then show ?thesis by (simp add: encode_def dict_default_def)
qed

lemma decode_unassigned:
  "i \<notin> snd ` set s2i \<Longrightarrow> decode (make_idx2sound s2i) unknown i = unknown"
  by (simp add: decode_def dict_default_def make_idx2sound_None)

lemma fit_languages_alphabet:
  "fit_languages enum langs b = Inr b' \<Longrightarrow>
   sound2idx b' = sound2idx b \<and> idx2sound b' = idx2sound b \<and> gap b' = gap b \<and> missing b' = missing b"
proof (induction langs arbitrary: b)
  case Nil
  then show ?case by simp
next
  case (Cons language langs)
  from Cons.prems obtain b1 where b1: "fit_languages enum langs b1 = Inr b'"
    and eq: "sound2idx b1 = sound2idx b" "idx2sound b1 = idx2sound b" "gap b1 = gap b" "missing b1 = missing b"
    by (auto simp: Let_def split: option.splits sum.splits prod.splits)
  from Cons.IH [OF b1] eq show ?case by simp
qed

lemma Baseline_fit_alphabet:
  assumes "Baseline_fit aln enum b = Inr b'"
  shows "sound2idx b' = make_sound2idx (gap b) (missing b) (training_sounds aln b)"
    and "idx2sound b' = make_idx2sound (sound2idx b')"
  using assms fit_languages_alphabet [of enum "languages b" _ b']
  by (auto simp: Baseline_fit_def training_sounds_def split: sum.splits prod.splits)


lemma distinct_fold_insert: "distinct (fold List.insert ys xs) = distinct xs"
  by (induction ys arbitrary: xs) simp_all

lemma distinct_record_row: "distinct (snd st) \<Longrightarrow> distinct (snd (record_row n language cogid ir st))"
  by (simp add: record_row_def Let_def distinct_fold_insert)

lemma distinct_record_rows:
  "distinct (snd st) \<Longrightarrow> distinct (snd (fold (record_row n language cogid) rows st))"
  by (induction rows arbitrary: st) (simp_all add: distinct_record_row)

lemma distinct_record_instances:
  "record_instances aln all_languages language insts st = Inr st' \<Longrightarrow> distinct (snd st) \<Longrightarrow>
   distinct (snd st')"
proof (induction insts arbitrary: st)
  case Nil
  then show ?case by simp
next
  case (Cons inst insts)
  obtain cogid langs alms where inst: "inst = (cogid, langs, alms)"
    by (cases inst)
  from Cons.prems(1) obtain m where
    "record_instances aln all_languages language insts
       (fold (record_row (length all_languages) language cogid) (enumerate 0 m) st) = Inr st'"
    by (auto simp: inst split: sum.splits)
  then show ?case
    by (rule Cons.IH) (rule distinct_record_rows [OF Cons.prems(2)])
qed

lemma distinct_collect_patterns:
  "collect_patterns aln b langs st = Inr st' \<Longrightarrow> distinct (snd st) \<Longrightarrow> distinct (snd st')"
proof (induction langs arbitrary: st)
  case Nil
  then show ?case by simp
next
  case (Cons language langs)
  from Cons.prems(1) obtain insts st1 where
    st1: "record_instances aln (languages b) language insts st = Inr st1"
    and rest: "collect_patterns aln b langs st1 = Inr st'"
    by (auto split: option.splits sum.splits)
  show ?case
    by (rule Cons.IH [OF rest]) (rule distinct_record_instances [OF st1 Cons.prems(2)])
qed

lemma distinct_training_sounds: "distinct (training_sounds aln b)"
proof (cases "collect_patterns aln b (languages b)
         (fold (\<lambda>language d. dict_set language [] d) (languages b) [], [])")
  case (Inl e)
  then show ?thesis by (simp add: training_sounds_def)
next
  case (Inr st')
  from distinct_collect_patterns [OF Inr] show ?thesis
    by (cases st') (simp add: training_sounds_def Inr)
qed

lemma strict_sorted_rank:
  fixes xs :: "'a :: linorder list"
  assumes "sorted_wrt (<) xs" and "k < length xs"
  shows "card {t \<in> set xs. t < xs ! k} = k"
proof -
  have d: "distinct xs" and s: "sorted xs"
    using assms(1) strict_sorted_iff by auto
  have "{t \<in> set xs. t < xs ! k} = set (take k xs)"
  proof (intro equalityI subsetI)
    fix t assume "t \<in> {t \<in> set xs. t < xs ! k}"
    then obtain j where j: "j < length xs" "t = xs ! j" "xs ! j < xs ! k"
      by (auto simp: in_set_conv_nth)
    have "j < k"
    proof (rule ccontr)
      assume "\<not> j < k"
      then have "xs ! k \<le> xs ! j"
        using s j(1) by (simp add: sorted_nth_mono)
      with j(3) show False by simp
    qed
    then show "t \<in> set (take k xs)"
      using j(1,2) assms(2) by (auto simp: in_set_conv_nth)
  next
    fix t assume "t \<in> set (take k xs)"
    then obtain j where j: "j < k" "t = xs ! j"
      using assms(2) by (auto simp: in_set_conv_nth)
    then have "xs ! j < xs ! k"
      using assms by (simp add: sorted_wrt_nth_less)
    with j assms(2) show "t \<in> {t \<in> set xs. t < xs ! k}"
      by simp
  qed
  moreover have "card (set (take k xs)) = k"
    using d assms(2) by (simp add: distinct_card)
  ultimately show ?thesis by simp
qed

lemma make_sound2idx_set:
  assumes "distinct sounds"
  shows "make_sound2idx gp ms sounds
     = dict_set ms 0 (dict_set gp 1
         (zip (sorted_list_of_set (set sounds)) [2..<card (set sounds) + 2]))"
proof -
  have "sort sounds = sorted_list_of_set (set sounds)"
    using assms by (simp add: sorted_list_of_set_sort_remdups distinct_remdups_id)
  moreover have "length sounds = card (set sounds)"
    using assms by (simp add: distinct_card)
  ultimately show ?thesis by (simp add: make_sound2idx_def)
qed

lemma make_sound2idx_index:
  assumes "distinct sounds" and "s \<in> set sounds" and "s \<noteq> gp" and "s \<noteq> ms"
  shows "map_of (make_sound2idx gp ms sounds) s = Some (2 + card {t \<in> set sounds. t < s})"
proof -
  let ?xs = "sort sounds"
  have d: "distinct ?xs" and st: "sorted_wrt (<) ?xs"
    using assms(1) by (simp_all add: strict_sorted_iff)
  from assms(2) obtain k where k: "k < length ?xs" "?xs ! k = s"
    by (metis in_set_conv_nth set_sort)
  have len: "length ?xs = length [2..<length sounds + 2]"
    by (simp del: upt_Suc)
  have "map_of (zip ?xs [2..<length sounds + 2]) (?xs ! k) = Some ([2..<length sounds + 2] ! k)"
    using k(1) by (intro map_of_zip_nth [OF len d]) (simp del: upt_Suc)
  also have "[2..<length sounds + 2] ! k = 2 + k"
    using k(1) by (simp del: upt_Suc)
  finally have "map_of (zip ?xs [2..<length sounds + 2]) s = Some (2 + k)"
    by (simp add: k(2))
  moreover have "card {t \<in> set sounds. t < s} = k"
    using strict_sorted_rank [OF st k(1)] by (simp add: k(2))
  ultimately show ?thesis
    using assms(3,4) by (simp add: make_sound2idx_def map_of_dict_set)
qed


text \<open>
  C8 (round trip of the alphabet). After \<^verbatim>\<open>fit\<close>: every symbol of the set \<^verbatim>\<open>sounds\<close>
  collected from the training matrices (and the gap and the missing value) is decoded from
  its code; a symbol that is neither encodes to 0, the index of the missing value; an index
  that the alphabet gives to no symbol decodes to the \<^verbatim>\<open>unknown\<close> argument.
\<close>

theorem alphabet_round_trip:
  assumes "Baseline_fit aln enum b = Inr b'"
  shows "(s \<in> set (training_sounds aln b) \<or> s = gap b \<or> s = missing b
            \<longrightarrow> decode (idx2sound b') unknown (encode (sound2idx b') s) = s)
       \<and> (s \<notin> set (training_sounds aln b) \<and> s \<noteq> gap b \<and> s \<noteq> missing b
            \<longrightarrow> encode (sound2idx b') s = 0)
       \<and> (i \<notin> snd ` set (sound2idx b') \<longrightarrow> decode (idx2sound b') unknown i = unknown)"
  unfolding Baseline_fit_alphabet(2) [OF assms] Baseline_fit_alphabet(1) [OF assms]
  using round_trip [of s "missing b" "gap b" "training_sounds aln b" unknown]
    encode_unseen [of s "missing b" "gap b" "training_sounds aln b"]
    decode_unassigned [of i "make_sound2idx (gap b) (missing b) (training_sounds aln b)" unknown]
  by blast

theorem alphabet_round_trip_witness:
  "Baseline_fit normalize_alignment maximal_cliques gap_baseline = Inr gap_fitted
   \<and> ''a.b'' \<in> set (training_sounds normalize_alignment gap_baseline)
   \<and> decode (idx2sound gap_fitted) ''?'' (encode (sound2idx gap_fitted) ''a.b'') = ''a.b''
   \<and> ''k'' \<notin> set (training_sounds normalize_alignment gap_baseline)
   \<and> encode (sound2idx gap_fitted) ''k'' = 0
   \<and> 2 \<notin> snd ` set (sound2idx gap_fitted)
   \<and> decode (idx2sound gap_fitted) ''?'' 2 = ''?''"
proof -
  have h: "Baseline_fit normalize_alignment maximal_cliques gap_baseline = Inr gap_fitted"
    by code_simp
  have s1: "''a.b'' \<in> set (training_sounds normalize_alignment gap_baseline)"
    by code_simp
  have s2: "''k'' \<notin> set (training_sounds normalize_alignment gap_baseline)"
    "''k'' \<noteq> gap gap_baseline" "''k'' \<noteq> missing gap_baseline"
    by code_simp+
  have s3: "2 \<notin> snd ` set (sound2idx gap_fitted)"
    by code_simp
  show ?thesis
    using alphabet_round_trip [OF h, of "''a.b''" "''?''" 2] alphabet_round_trip [OF h, of "''k''" "''?''" 2]
      h s1 s2 s3
    by blast
qed

text \<open>
  C5, as the code has it. After \<^verbatim>\<open>fit\<close> the alphabet is determined by the set of observed
  values alone (not by the order in which they were met): the missing value is at 0, the gap
  at 1 (when it is another symbol than the missing value), and every other observed symbol
  \<open>s\<close> at 2 plus the number of observed values that sort before \<open>s\<close>, where the gap and the
  missing value count among the observed values when they occur in a training matrix.
\<close>

theorem alphabet_indices:
  assumes "Baseline_fit aln enum b = Inr b'"
  shows "sound2idx b' = dict_set (missing b) 0 (dict_set (gap b) 1
            (zip (sorted_list_of_set (set (training_sounds aln b)))
                 [2..<card (set (training_sounds aln b)) + 2]))
       \<and> map_of (sound2idx b') (missing b) = Some 0
       \<and> (gap b \<noteq> missing b \<longrightarrow> map_of (sound2idx b') (gap b) = Some 1)
       \<and> (s \<in> set (training_sounds aln b) \<and> s \<noteq> gap b \<and> s \<noteq> missing b
            \<longrightarrow> map_of (sound2idx b') s = Some (2 + card {t \<in> set (training_sounds aln b). t < s}))"
proof -
  note d = distinct_training_sounds [of aln b]
  have eq: "sound2idx b' = make_sound2idx (gap b) (missing b) (training_sounds aln b)"
    by (rule Baseline_fit_alphabet(1) [OF assms])
  have "map_of (sound2idx b') (missing b) = Some 0"
    and "gap b \<noteq> missing b \<longrightarrow> map_of (sound2idx b') (gap b) = Some 1"
    by (simp_all add: eq make_sound2idx_def map_of_dict_set)
  then show ?thesis
    using make_sound2idx_set [OF d, of "gap b" "missing b"] make_sound2idx_index [OF d, of s "gap b" "missing b"]
    by (simp only: eq) blast
qed

theorem alphabet_indices_witness:
  "Baseline_fit normalize_alignment maximal_cliques gap_baseline = Inr gap_fitted
   \<and> set (training_sounds normalize_alignment gap_baseline) = {''-'', ''a'', ''a.b'', ''b''}
   \<and> sound2idx gap_fitted = [(''-'', 1), (''a'', 3), (''a.b'', 4), (''b'', 5), (missing_symbol, 0)]
   \<and> map_of (sound2idx gap_fitted) ''b''
       = Some (2 + card {t \<in> set (training_sounds normalize_alignment gap_baseline). t < ''b''})"
proof -
  have h: "Baseline_fit normalize_alignment maximal_cliques gap_baseline = Inr gap_fitted"
    by code_simp
  have s1: "set (training_sounds normalize_alignment gap_baseline) = {''-'', ''a'', ''a.b'', ''b''}"
    by code_simp
  have s2: "sound2idx gap_fitted = [(''-'', 1), (''a'', 3), (''a.b'', 4), (''b'', 5), (missing_symbol, 0)]"
    by code_simp
  have s3: "''b'' \<in> set (training_sounds normalize_alignment gap_baseline)"
    "''b'' \<noteq> gap gap_baseline" "''b'' \<noteq> missing gap_baseline"
    by code_simp+
  show ?thesis
    using alphabet_indices [OF h, of "''b''"] h s1 s2 s3 by blast
qed

text \<open>
  C5 as stated fails on the table \<open>gap_table\<close>: the gap is among the observed values and
  sorts first, so the code gives \<open>a\<close>, the least of the three other symbols, index 3, where
  the specification's numbering gives it 2; index 2 is given to no symbol.
\<close>

theorem alphabet_indices_counterexample:
  "Baseline_fit normalize_alignment maximal_cliques gap_baseline = Inr gap_fitted
   \<and> map_of (sound2idx gap_fitted) ''a'' = Some 3
   \<and> spec_sound2idx (gap gap_baseline) (missing gap_baseline)
        (training_sounds normalize_alignment gap_baseline) ''a'' = Some 2"
  by code_simp

section \<open>Training instances and the end-to-end example\<close>

text \<open>
  C1 (pattern and target of a training instance). The code on \<open>three_table\<close>, for the
  target language \<open>A\<close>: the instance is built with \<open>A\<close> last (sources \<open>B\<close>, \<open>C\<close>), but
  \<^verbatim>\<open>simple_align\<close> writes every value into the column of its language in the canonical
  order, and \<^verbatim>\<open>fit\<close> takes the first two columns as the pattern and the last as the
  target: the pair recorded for \<open>A\<close> is the pattern \<open>(p, b)\<close>, which holds \<open>A\<close>'s own value,
  with the target \<open>t\<close>, the value of \<open>C\<close>; by the claim it is the pattern \<open>(b, t)\<close> with the
  target \<open>p\<close>. With the alphabet \<open>b = 2\<close>, \<open>p = 3\<close>, \<open>t = 4\<close> the classifier of \<open>A\<close> is
  fitted on the encoded pair \<open>([3, 2], 4)\<close>, not on \<open>([2, 4], 3)\<close>. The same pair is
  recorded for \<open>B\<close> and for \<open>C\<close>; only for \<open>C\<close>, the last language, is it the claimed one.
\<close>

theorem training_pair_of_first_language:
  "Baseline_init [''A'', ''B'', ''C''] three_table gap_symbol missing_symbol 1 = Inr three_baseline
   \<and> map_of (alignments three_baseline) ''A''
       = Some [(''1'', [''B'', ''C'', ''A''], [[''b''], [''t''], [''p'']])]
   \<and> simple_align normalize_alignment [[''b''], [''t''], [''p'']] [''B'', ''C'', ''A'']
         [''A'', ''B'', ''C''] True = Inr [[''p'', ''b'', ''t'']]
   \<and> Baseline_fit normalize_alignment maximal_cliques three_baseline = Inr three_fitted
   \<and> lang_patterns three_fitted
       = [(''A'', [([''p'', ''b''], [(''t'', [(''1'', 0)])])]),
          (''B'', [([''p'', ''b''], [(''t'', [(''1'', 0)])])]),
          (''C'', [([''p'', ''b''], [(''t'', [(''1'', 0)])])])]
   \<and> sound2idx three_fitted = [(''b'', 2), (''p'', 3), (''t'', 4), (''-'', 1), (missing_symbol, 0)]
   \<and> map_of (matrices three_fitted) ''A'' = Some [[3, 2]]
   \<and> map_of (solutions three_fitted) ''A'' = Some [4]"
  by code_simp

text \<open>
  C2, as the code has it. On the two training rows, predicting \<open>C\<close> from \<open>A = k u\<close>,
  \<open>B = k u\<close> returns the missing value for both segments, whatever the enumeration of
  cliques: \<open>k\<close> and \<open>u\<close> are not in the alphabet and encode to 0, the prediction table of
  \<open>C\<close>'s classifier and its index are empty (no two training tuples are compatible), so the
  exact lookup misses and the search has no candidate.
\<close>

theorem end_to_end_missing:
  "end_to_end enum = Inr [missing_symbol, missing_symbol]
   \<and> map_sum id (\<lambda>b. map (encode (sound2idx b)) [''k'', ''u''])
        (fit_table normalize_alignment enum [''A'', ''B'', ''C''] training_table) = Inr [0, 0]
   \<and> map_sum id (\<lambda>b. map_option (\<lambda>clf. (predictions clf, ptnlkp clf)) (map_of (classifiers b) ''C''))
        (fit_table normalize_alignment enum [''A'', ''B'', ''C''] training_table) = Inr (Some ([], []))"
  by code_simp

text \<open>
  C2 as stated fails: the prediction is not \<open>g u\<close> (the symbol \<open>g\<close> occurs nowhere in the
  training data, and the classifier can only return indices of the alphabet).
\<close>

theorem end_to_end_counterexample:
  "end_to_end maximal_cliques \<noteq> Inr [''g'', ''u'']"
  by code_simp

section \<open>The rules recorded by \<open>fit\<close>\<close>










lemma hd_filter_nth:
  assumes "i < length xs" and "P (xs ! i)" and "\<forall>j < i. \<not> P (xs ! j)"
  shows "hd (filter P xs) = xs ! i"
proof -
  have "filter P (take i xs) = []"
    using assms(1,3) by (auto simp: filter_empty_conv in_set_conv_nth)
  moreover have "xs = take i xs @ xs ! i # drop (Suc i) xs"
    using assms(1) by (simp add: id_take_nth_drop [symmetric])
  ultimately have "filter P xs = xs ! i # filter P (drop (Suc i) xs)"
    using assms(2) by (metis append_Nil filter.simps(2) filter_append)
  then show ?thesis by simp
qed

lemma hd_sort_key_first_min:
  fixes f :: "'a \<Rightarrow> int"
  assumes "i < length xs" and "\<forall>j < length xs. f (xs ! i) \<le> f (xs ! j)"
    and "\<forall>j < i. f (xs ! i) < f (xs ! j)"
  shows "hd (sort_key f xs) = xs ! i"
proof -
  let ?ys = "sort_key f xs"
  have ne: "?ys \<noteq> []" using assms(1) by (metis length_sort list.size(3) not_less_zero)
  have mem: "hd ?ys \<in> set xs" using ne by (metis hd_in_set set_sort)
  then obtain j where j: "j < length xs" "hd ?ys = xs ! j"
    by (auto simp: in_set_conv_nth)
  have "xs ! i \<in> set ?ys" using assms(1) by simp
  moreover have "sorted (map f ?ys)" by simp
  ultimately have "f (hd ?ys) \<le> f (xs ! i)"
    using ne by (cases ?ys) auto
  with assms(2) j have m: "f (hd ?ys) = f (xs ! i)" by force
  have "hd ?ys = hd (filter (\<lambda>x. f x = f (xs ! i)) ?ys)"
    using ne m by (cases ?ys) auto
  also have "filter (\<lambda>x. f x = f (xs ! i)) ?ys = filter (\<lambda>x. f x = f (xs ! i)) xs"
    by (rule sort_key_stable)
  also have "hd \<dots> = xs ! i"
    using assms(1,3) by (intro hd_filter_nth) auto
  finally show ?thesis .
qed





section \<open>The fallback search of \<open>predict\<close>\<close>

lemma visit_score:
  "visit q p (cands, visited) =
     (if p \<in> set visited then (cands, visited)
      else (cands @ (case spec_score q p of None \<Rightarrow> [] | Some s \<Rightarrow> [(p, s)]), p # visited))"
  by (auto simp: spec_score_def split: prod.splits)

lemma fold_visit:
  "fold (visit q) ps (cands, visited) =
     (cands @ List.map_filter (\<lambda>p. map_option (Pair p) (spec_score q p)) (unvisited visited ps),
      rev (unvisited visited ps) @ visited)"
proof (induction ps arbitrary: cands visited)
  case Nil
  then show ?case by (simp add: map_filter_simps)
next
  case (Cons p ps)
  show ?case
    by (cases "spec_score q p") (simp_all add: visit_score Cons.IH map_filter_simps del: visit.simps)
qed

lemma fold_positions:
  "fold (\<lambda>i st. if c i then fold f (g i) st else st) is st
     = fold f (concat (map (\<lambda>i. if c i then g i else []) is)) st"
  by (induction "is" arbitrary: st) simp_all

lemma gather_unvisited:
  "gather idx q = List.map_filter (\<lambda>p. map_option (Pair p) (spec_score q p))
     (unvisited [] (concat (map (\<lambda>i. if q ! i \<noteq> 0 then dict_default [] idx (i, q ! i) else [])
                              [0..<length q - 1])))"
  by (simp add: gather_def fold_positions fold_visit del: visit.simps)

lemma last_position_missing:
  assumes "q = [] \<or> last q = 0"
  shows "concat (map (\<lambda>i. if q ! i \<noteq> 0 then g i else []) [0..<length q - 1])
       = concat (map (\<lambda>i. if q ! i \<noteq> (0::nat) then g i else []) [0..<length q])"
proof (cases "q = []")
  case True
  then show ?thesis by simp
next
  case False
  then have "[0..<length q] = [0..<length q - 1] @ [length q - 1]"
    by (metis One_nat_def Suc_pred length_greater_0_conv upt_Suc_append zero_le)
  moreover have "q ! (length q - 1) = 0"
    using assms False by (simp add: last_conv_nth)
  ultimately show ?thesis by simp
qed

lemma gather_spec:
  assumes "q = [] \<or> last q = 0"
  shows "gather idx q = spec_candidates idx q"
  unfolding gather_unvisited spec_candidates_def spec_gathered_def last_position_missing [OF assms]
  by (rule refl)

lemma set_unvisited: "set (unvisited seen ps) = set ps - set seen"
  by (induction ps arbitrary: seen) auto

lemma distinct_unvisited: "distinct (unvisited seen ps)"
  by (induction ps arbitrary: seen) (auto simp: set_unvisited)

lemma first_maximum:
  fixes xs :: "('a \<times> int) list"
  assumes "xs \<noteq> []"
  shows "\<exists>i < length xs. (\<forall>j < length xs. snd (xs ! j) \<le> snd (xs ! i))
           \<and> (\<forall>j < i. snd (xs ! j) < snd (xs ! i))"
proof -
  define M where "M = Max (snd ` set xs)"
  have fin: "finite (snd ` set xs)" and ne: "snd ` set xs \<noteq> {}"
    using assms by auto
  have "M \<in> snd ` set xs"
    unfolding M_def by (rule Max_in [OF fin ne])
  then have ex: "\<exists>i. i < length xs \<and> snd (xs ! i) = M"
    by (metis imageE in_set_conv_nth)
  define i where "i = (LEAST i. i < length xs \<and> snd (xs ! i) = M)"
  have i: "i < length xs" "snd (xs ! i) = M"
    using LeastI_ex [OF ex] by (simp_all add: i_def)
  have le: "snd (xs ! j) \<le> M" if "j < length xs" for j
    unfolding M_def using that by (intro Max_ge [OF fin]) auto
  have "snd (xs ! j) < M" if "j < i" for j
  proof -
    from that i(1) have j: "j < length xs" by simp
    have "snd (xs ! j) \<noteq> M"
      using not_less_Least [of j "\<lambda>i. i < length xs \<and> snd (xs ! i) = M"] that j
      by (auto simp: i_def)
    with le [OF j] show ?thesis by simp
  qed
  with i le show ?thesis by auto
qed

lemma best_candidate:
  fixes cands :: "(pattern \<times> int) list"
  assumes "cands \<noteq> []"
  shows "\<exists>p s rest. find (\<lambda>c. \<forall>c' \<in> set cands. snd c' \<le> snd c) cands = Some (p, s)
           \<and> map fst (sorted_desc snd cands) = p # rest"
proof -
  from first_maximum [OF assms] obtain i where i: "i < length cands"
    and mx: "\<forall>j < length cands. snd (cands ! j) \<le> snd (cands ! i)"
    and fst: "\<forall>j < i. snd (cands ! j) < snd (cands ! i)"
    by blast
  have "hd (sort_key (\<lambda>c. - snd c) cands) = cands ! i"
    using i mx fst by (intro hd_sort_key_first_min) auto
  moreover have "sort_key (\<lambda>c. - snd c) cands \<noteq> []"
    using assms by (metis length_sort length_0_conv)
  ultimately obtain rest where srt: "sort_key (\<lambda>c. - snd c) cands = cands ! i # rest"
    by (cases "sort_key (\<lambda>c. - snd c) cands") auto
  have P: "\<forall>c' \<in> set cands. snd c' \<le> snd (cands ! i)"
    using mx by (metis in_set_conv_nth)
  have nP: "\<not> (\<forall>c' \<in> set cands. snd c' \<le> snd (cands ! j))" if "j < i" for j
    using fst that i by (metis nth_mem not_le)
  have "find (\<lambda>c. \<forall>c' \<in> set cands. snd c' \<le> snd c) cands = Some (cands ! i)"
    unfolding find_Some_iff using i P nP by blast
  then show ?thesis
    by (cases "cands ! i") (auto simp: sorted_desc_def srt)
qed

lemma predict_row_spec:
  assumes "fitted clf" and "map_of (predictions clf) q = None" and "q = [] \<or> last q = 0"
  shows "predict_row clf q = spec_fallback clf q"
proof (cases "spec_candidates (ptnlkp clf) q = []")
  case True
  then show ?thesis
    using assms by (simp add: predict_row_def spec_fallback_def gather_spec sorted_desc_def)
next
  case False
  from best_candidate [OF False] show ?thesis
  proof (elim exE conjE)
    fix p s rest
    assume "find (\<lambda>c. \<forall>c' \<in> set (spec_candidates (ptnlkp clf) q). snd c' \<le> snd c)
              (spec_candidates (ptnlkp clf) q) = Some (p, s)"
      and "map fst (sorted_desc snd (spec_candidates (ptnlkp clf) q)) = p # rest"
    then show ?thesis
      using assms by (simp add: predict_row_def spec_fallback_def gather_spec Let_def)
  qed
qed


lemma dict_default_values:
  assumes "p \<in> set (dict_default [] d k)"
  shows "\<exists>entry \<in> set d. p \<in> set (snd entry)"
proof (cases "map_of d k")
  case None
  with assms show ?thesis by (simp add: dict_default_def)
next
  case (Some vs)
  then have "(k, vs) \<in> set d" by (rule map_of_SomeD)
  moreover have "p \<in> set (snd (k, vs))"
    using assms Some by (simp add: dict_default_def)
  ultimately show ?thesis by blast
qed

lemma dict_append_values:
  assumes "entry \<in> set (dict_append k v d)" and "p \<in> set (snd entry)"
  shows "p = v \<or> (\<exists>entry' \<in> set d. p \<in> set (snd entry'))"
proof -
  have "snd entry \<in> insert (dict_default [] d k @ [v]) (snd ` set d)"
    using assms(1) snd_dict_set [of k "dict_default [] d k @ [v]" d]
    unfolding dict_append_def by blast
  then consider "snd entry = dict_default [] d k @ [v]" | "snd entry \<in> snd ` set d"
    by blast
  then show ?thesis
  proof cases
    case 1
    with assms(2) have "p = v \<or> p \<in> set (dict_default [] d k)" by auto
    then show ?thesis using dict_default_values [of p d k] by blast
  next
    case 2
    then obtain e' where "e' \<in> set d" "snd e' = snd entry" by auto
    with assms(2) have "\<exists>entry' \<in> set d. p \<in> set (snd entry')" by metis
    then show ?thesis by simp
  qed
qed

lemma index_pattern_values:
  assumes "entry \<in> set (index_pattern ptn idx)" and "p \<in> set (snd entry)"
  shows "p = ptn \<or> (\<exists>entry' \<in> set idx. p \<in> set (snd entry'))"
proof -
  define F where "F = (\<lambda>i idx. if ptn ! i \<noteq> 0 then dict_append (i, ptn ! i) ptn idx else idx)"
  have step: "p = ptn \<or> (\<exists>entry' \<in> set idx. p \<in> set (snd entry'))"
    if "e \<in> set (F i idx)" "p \<in> set (snd e)" for e i idx
    using that dict_append_values [of e "(i, ptn ! i)" ptn idx p]
    by (auto simp: F_def split: if_splits)
  have "entry \<in> set (fold F is idx) \<Longrightarrow> p = ptn \<or> (\<exists>entry' \<in> set idx. p \<in> set (snd entry'))"
    for "is" :: "nat list"
  proof (induction "is" arbitrary: idx)
    case Nil
    with assms(2) show ?case by auto
  next
    case (Cons i "is")
    from Cons.prems have "entry \<in> set (fold F is (F i idx))" by simp
    from Cons.IH [OF this] show ?case
      using step [of _ i idx] by blast
  qed
  with assms(1) show ?thesis by (simp add: index_pattern_def F_def)
qed

lemma make_index_values:
  assumes "entry \<in> set (make_index ptns)" and "p \<in> set (snd entry)"
  shows "p \<in> set ptns"
proof -
  have "entry \<in> set (fold index_pattern ps idx)
      \<Longrightarrow> p \<in> set ps \<or> (\<exists>entry' \<in> set idx. p \<in> set (snd entry'))" for ps idx
  proof (induction ps arbitrary: idx)
    case Nil
    with assms(2) show ?case by auto
  next
    case (Cons ptn ps)
    from Cons.prems have "entry \<in> set (fold index_pattern ps (index_pattern ptn idx))" by simp
    from Cons.IH [OF this] show ?case
      using index_pattern_values [of _ ptn idx p] by auto
  qed
  from this [of ptns "[]"] assms(1) show ?thesis by (simp add: make_index_def)
qed

lemma direct_rules_keys:
  "direct_rules pats preds = Inr preds' \<Longrightarrow> fst ` set preds' = fst ` set preds \<union> fst ` set pats"
proof (induction pats arbitrary: preds)
  case Nil
  then show ?case by simp
next
  case (Cons e pats)
  obtain ptn targets where e: "e = (ptn, targets)" by (cases e)
  from Cons.prems obtain t where "direct_rules pats (dict_set ptn t preds) = Inr preds'"
    by (auto simp: e split: sum.splits)
  from Cons.IH [OF this] show ?case by (auto simp: e keys_dict_set)
qed

lemma resolve_observed_keys:
  "resolve_observed lk preds = Inr preds' \<Longrightarrow> fst ` set preds \<subseteq> fst ` set preds'"
proof (induction lk arbitrary: preds)
  case Nil
  then show ?case by simp
next
  case (Cons e lk)
  obtain ptn refs where e: "e = (ptn, refs)" by (cases e)
  from Cons.prems obtain t where "resolve_observed lk (dict_set ptn t preds) = Inr preds'"
    by (auto simp: e split: sum.splits option.splits)
  from Cons.IH [OF this] show ?case by (auto simp: keys_dict_set)
qed

lemma fit_index_resolved:
  assumes "fit enum clf X y = Inr clf'"
  shows "fitted clf' \<and> index_resolved clf'"
proof -
  from assms obtain pats lk preds0 where
    dir: "direct_rules pats [] = Inr preds0"
    and res: "resolve_observed lk preds0 = Inr (predictions clf')"
    and idx: "ptnlkp clf' = make_index (map fst pats)"
    and f: "fitted clf'"
    by (auto simp: fit_def ebind_def Let_def split: sum.splits prod.splits)
  have "fst ` set pats \<subseteq> fst ` set (predictions clf')"
    using direct_rules_keys [OF dir] resolve_observed_keys [OF res] by auto
  then have "index_resolved clf'"
    unfolding index_resolved_def idx using make_index_values [of _ "map fst pats"] by fastforce
  with f show ?thesis by simp
qed

lemma predict_row_preserves:
  assumes "predict_row clf q = Inr (t, clf')" and "index_resolved clf"
  shows "fitted clf' \<and> index_resolved clf'"
proof -
  from assms(1) have f: "fitted clf" and "fitted clf'"
    and "clf' = clf \<or> clf' = clf\<lparr>predictions := dict_set q t (predictions clf)\<rparr>"
    by (auto simp: predict_row_def split: if_splits option.splits list.splits)
  with assms(2) show ?thesis
    by (auto simp: index_resolved_def keys_dict_set)
qed

lemma spec_candidates_indexed:
  assumes "(p, s) \<in> set (spec_candidates idx q)"
  shows "\<exists>entry \<in> set idx. p \<in> set (snd entry)"
proof -
  from assms have "p \<in> set (spec_gathered idx q)"
    by (auto simp: spec_candidates_def map_filter_def)
  then obtain i where "p \<in> set (if q ! i \<noteq> 0 then dict_default [] idx (i, q ! i) else [])"
    by (auto simp: spec_gathered_def set_unvisited)
  then show ?thesis
    using dict_default_values [of p idx "(i, q ! i)"] by (auto split: if_splits)
qed

lemma spec_fallback_total:
  assumes "fitted clf" and "index_resolved clf"
  shows "\<exists>t clf'. spec_fallback clf q = Inr (t, clf') \<and> fitted clf' \<and> index_resolved clf'"
proof (cases "find (\<lambda>c. \<forall>c' \<in> set (spec_candidates (ptnlkp clf) q). snd c' \<le> snd c)
                (spec_candidates (ptnlkp clf) q)")
  case None
  with assms show ?thesis by (simp add: spec_fallback_def)
next
  case (Some c)
  obtain p s where c: "c = (p, s)" by (cases c)
  from Some have "(p, s) \<in> set (spec_candidates (ptnlkp clf) q)"
    unfolding c find_Some_iff by (metis nth_mem)
  from spec_candidates_indexed [OF this] assms(2) have "p \<in> fst ` set (predictions clf)"
    by (auto simp: index_resolved_def)
  then obtain t where t: "map_of (predictions clf) p = Some t"
    by (metis map_of_eq_None_iff not_Some_eq)
  have "index_resolved (clf\<lparr>predictions := dict_set q t (predictions clf)\<rparr>)"
    using assms(2) by (auto simp: index_resolved_def keys_dict_set)
  with assms(1) show ?thesis
    by (simp add: spec_fallback_def Some c t)
qed

lemma compatible_bound:
  "fst (compatible q p) + snd (compatible q p) \<le> length q"
proof -
  have "fst (fold compatible_step zs (m, mm)) + snd (fold compatible_step zs (m, mm))
      \<le> m + mm + length zs" for zs m mm
  proof (induction zs arbitrary: m mm)
    case Nil
    then show ?case by simp
  next
    case (Cons z zs)
    obtain a b where z: "z = (a, b)" by (cases z)
    show ?case
      using Cons.IH [of m mm] Cons.IH [of "m + 1" mm] Cons.IH [of m "mm + 1"]
      by (auto simp: z)
  qed
  from this [of "zip q p" 0 0] show ?thesis
    by (simp add: compatible_def)
qed

lemma spec_score_preference:
  assumes "spec_score q p = Some s" and "snd (compatible q p) = 0"
    and "spec_score q p' = Some s'" and "snd (compatible q p') \<noteq> 0"
  shows "s' < s"
proof -
  obtain m mm where c: "compatible q p = (m, mm)" by (cases "compatible q p")
  obtain m' mm' where c': "compatible q p' = (m', mm')" by (cases "compatible q p'")
  from assms(1,2) have s: "s = int m + int (length q)" "m \<noteq> 0"
    by (auto simp: spec_score_def c split: if_splits)
  from assms(3,4) have s': "s' = int m' - int mm'" "mm' \<noteq> 0"
    by (auto simp: spec_score_def c' split: if_splits)
  have "m' + mm' \<le> length q"
    using compatible_bound [of q p'] by (simp add: c')
  with s s' show ?thesis by simp
qed

text \<open>
  C6, as the code has it, for a query whose last position holds the missing value (or an
  empty query): on a miss of the exact table, \<^verbatim>\<open>predict\<close> does what \<open>spec_fallback\<close>
  says. It gathers the patterns of the index at the non-missing positions of the query,
  left to right, each once; keeps a match without mismatch with the score match plus query
  length and a pattern with mismatches with the score match minus mismatch, discarding it
  when match equals mismatch; returns the target of the first kept candidate with the
  highest score and caches it under the query; and returns the missing value, caching
  nothing, exactly when no candidate is kept. For a fitted classifier whose index is
  resolved this never fails and keeps the invariant; a match without mismatch always scores
  above a candidate with mismatches.
\<close>

theorem predict_row_fallback:
  assumes "fitted clf" and "index_resolved clf"
    and "map_of (predictions clf) q = None" and "q = [] \<or> last q = 0"
  shows "predict_row clf q = spec_fallback clf q
       \<and> (\<exists>t clf'. spec_fallback clf q = Inr (t, clf') \<and> fitted clf' \<and> index_resolved clf')
       \<and> (spec_candidates (ptnlkp clf) q = [] \<longrightarrow> spec_fallback clf q = Inr (0, clf))
       \<and> distinct (spec_gathered (ptnlkp clf) q)
       \<and> (\<forall>p p' s s'. spec_score q p = Some s \<and> snd (compatible q p) = 0
              \<and> spec_score q p' = Some s' \<and> snd (compatible q p') \<noteq> 0 \<longrightarrow> s' < s)"
  using predict_row_spec [OF assms(1,3,4)] spec_fallback_total [OF assms(1,2), of q]
    spec_score_preference [of q]
  by (auto simp: spec_gathered_def distinct_unvisited spec_fallback_def)


theorem predict_row_fallback_witness:
  "fit maximal_cliques (CorPaR_init 1)
     [[5, 5, 0], [5, 0, 0], [5, 5, 0], [5, 5, 6], [0, 5, 6]] [9, 9, 8, 8, 8] = Inr two_patterns_fitted
   \<and> fitted two_patterns_fitted \<and> index_resolved two_patterns_fitted
   \<and> map_of (predictions two_patterns_fitted) [0, 5, 0] = None
   \<and> spec_gathered (ptnlkp two_patterns_fitted) [0, 5, 0] = [[5, 5, 0], [5, 5, 6]]
   \<and> spec_candidates (ptnlkp two_patterns_fitted) [0, 5, 0] = [([5, 5, 0], 4), ([5, 5, 6], 4)]
   \<and> map_of (predictions two_patterns_fitted) [5, 5, 0] = Some 8
   \<and> predict_row two_patterns_fitted [0, 5, 0]
       = Inr (8, two_patterns_fitted\<lparr>predictions :=
                   dict_set [0, 5, 0] 8 (predictions two_patterns_fitted)\<rparr>)"
proof -
  have h: "fit maximal_cliques (CorPaR_init 1)
     [[5, 5, 0], [5, 0, 0], [5, 5, 0], [5, 5, 6], [0, 5, 6]] [9, 9, 8, 8, 8] = Inr two_patterns_fitted"
    by code_simp
  note inv = fit_index_resolved [OF h]
  have miss: "map_of (predictions two_patterns_fitted) [0, 5, 0] = None"
    by code_simp
  have lst: "[0, 5, 0] = [] \<or> last [0, 5, 0 :: nat] = 0"
    by simp
  have g: "spec_gathered (ptnlkp two_patterns_fitted) [0, 5, 0] = [[5, 5, 0], [5, 5, 6]]"
    by code_simp
  have c: "spec_candidates (ptnlkp two_patterns_fitted) [0, 5, 0] = [([5, 5, 0], 4), ([5, 5, 6], 4)]"
    by code_simp
  have t: "map_of (predictions two_patterns_fitted) [5, 5, 0] = Some 8"
    by code_simp
  have sf: "spec_fallback two_patterns_fitted [0, 5, 0]
      = Inr (8, two_patterns_fitted\<lparr>predictions :=
                  dict_set [0, 5, 0] 8 (predictions two_patterns_fitted)\<rparr>)"
    by (simp add: spec_fallback_def c t)
  from predict_row_fallback [OF conjunct1 [OF inv] conjunct2 [OF inv] miss lst]
  have "predict_row two_patterns_fitted [0, 5, 0] = spec_fallback two_patterns_fitted [0, 5, 0]"
    by blast
  with h inv miss g c t sf show ?thesis by simp
qed

text \<open>
  C6 as stated fails. First part: at the non-missing position 0 of the query
  \<open>(5, 8, 0)\<close> the index holds the candidate \<open>(5, 6, 7)\<close>; it has one match and one
  mismatch, is not scored but discarded (\<^verbatim>\<open>elif match-mismatch\<close>), and \<^verbatim>\<open>predict\<close>
  returns the missing value although a candidate was found. Second part: the search runs
  over \<^verbatim>\<open>range(len(ptn)-1)\<close>, so the last position of a query is never looked up: for
  \<open>(0, 0, 7)\<close> the index holds \<open>(5, 6, 7)\<close> at position 2, a match without mismatch, and
  \<^verbatim>\<open>predict\<close> returns the missing value. In both cases the classifier is left unchanged.
\<close>

theorem predict_row_fallback_counterexample:
  "fit maximal_cliques (CorPaR_init 1) [[5, 6, 7], [5, 6, 0]] [9, 9] = Inr one_clique_fitted
   \<and> map_of (predictions one_clique_fitted) [5, 6, 7] = Some 9
   \<and> dict_default [] (ptnlkp one_clique_fitted) (0, 5) = [[5, 6, 7]]
   \<and> compatible [5, 8, 0] [5, 6, 7] = (1, 1)
   \<and> predict one_clique_fitted [[5, 8, 0]] = Inr ([0], one_clique_fitted)
   \<and> dict_default [] (ptnlkp one_clique_fitted) (2, 7) = [[5, 6, 7]]
   \<and> compatible [0, 0, 7] [5, 6, 7] = (1, 0)
   \<and> predict one_clique_fitted [[0, 0, 7]] = Inr ([0], one_clique_fitted)"
  by code_simp

section \<open>The rule target of a consensus source pattern\<close>














end
